theory Spec2Isabelle
  imports Complex_Main "HOL-Library.AList" "HOL-Library.Sublist" "HOL-Library.Word"
begin

section \<open>The host language: values, numbers as text, JSON, objects\<close>

text \<open>
  The store is a JavaScript class (\<open>DBjs\<close>). Keys and values arrive as arbitrary
  JavaScript values, so the model starts with the fragment of the language the class
  relies on. Strings are lists of code units below 256. Numbers are the integers from
  \<open>-2^53\<close> to \<open>2^53 - 1\<close>, 54 bits read with \<^const>\<open>sint\<close>: each of them is a number
  of the language, and \<open>Number.prototype.toString\<close> and \<open>JSON.stringify\<close> write
  each of them with all its digits (the exponent form starts at \<open>10^21\<close>). Fractions,
  larger numbers, \<open>NaN\<close> and the infinities are not among the values of the model.
\<close>

datatype jsval =
    JUndefined
  | JNull
  | JBool bool
  | JNum "54 word"
  | JStr string
  | JArr "jsval list"
  | JObj "(string \<times> jsval) list"
  | JFun

text \<open>Truthiness, as \<open>if (data)\<close> and \<open>if (key)\<close> read it.\<close>

fun truthy :: "jsval \<Rightarrow> bool" where
  "truthy JUndefined = False"
| "truthy JNull = False"
| "truthy (JBool b) = b"
| "truthy (JNum n) = (n \<noteq> 0)"
| "truthy (JStr s) = (s \<noteq> [])"
| "truthy (JArr vs) = True"
| "truthy (JObj fs) = True"
| "truthy JFun = True"

subsection \<open>Numbers and text\<close>

definition digit_char :: "nat \<Rightarrow> char" where
  "digit_char d = ''0123456789'' ! d"

function digits_of :: "nat \<Rightarrow> string" where
  "digits_of n = (if n < 10 then [digit_char n] else digits_of (n div 10) @ [digit_char (n mod 10)])"
  by pat_completeness auto
termination
  by (relation "measure (\<lambda>n. n)") auto

text \<open>
  \<open>Number.prototype.toString\<close> on an integer below \<open>10^21\<close> in magnitude, which
  is written with all its digits: as in \<open>now + '.json'\<close> for a clock reading, in the
  property name that \<open>this.rindex[index] = key\<close> creates for an index size, and in
  the JSON text of a number.
\<close>

definition num_to_string :: "int \<Rightarrow> string" where
  "num_to_string n = (if n < 0 then CHR ''-'' # digits_of (nat (- n)) else digits_of (nat n))"

definition digit_value :: "char \<Rightarrow> nat option" where
  "digit_value ch = map_of
     [(CHR ''0'', 0), (CHR ''1'', 1), (CHR ''2'', 2), (CHR ''3'', 3), (CHR ''4'', 4),
      (CHR ''5'', 5), (CHR ''6'', 6), (CHR ''7'', 7), (CHR ''8'', 8), (CHR ''9'', 9),
      (CHR ''a'', 10), (CHR ''b'', 11), (CHR ''c'', 12), (CHR ''d'', 13), (CHR ''e'', 14),
      (CHR ''f'', 15), (CHR ''A'', 10), (CHR ''B'', 11), (CHR ''C'', 12), (CHR ''D'', 13),
      (CHR ''E'', 14), (CHR ''F'', 15)] ch"

definition is_radix_digit :: "nat \<Rightarrow> char \<Rightarrow> bool" where
  "is_radix_digit r ch = (case digit_value ch of None \<Rightarrow> False | Some d \<Rightarrow> d < r)"

definition is_digit :: "char \<Rightarrow> bool" where
  "is_digit ch = is_radix_digit 10 ch"

definition radix_value :: "nat \<Rightarrow> string \<Rightarrow> nat" where
  "radix_value r ds = foldl (\<lambda>acc ch. acc * r + (case digit_value ch of None \<Rightarrow> 0 | Some d \<Rightarrow> d)) 0 ds"

definition js_whitespace :: "char \<Rightarrow> bool" where
  "js_whitespace ch = (ch \<in> set [CHR 0x09, CHR 0x0A, CHR 0x0B, CHR 0x0C, CHR 0x0D, CHR 0x20, CHR 0xA0])"

text \<open>
  \<open>parseInt(key)\<close> with one argument: leading white space is skipped, a sign is read,
  a \<open>0x\<close> prefix selects radix 16, and the longest run of digits is the value;
  \<open>None\<close> is \<open>NaN\<close>.
\<close>

definition js_parseInt :: "string \<Rightarrow> int option" where
  "js_parseInt str =
     (let s0 = dropWhile js_whitespace str;
          neg = (s0 \<noteq> [] \<and> hd s0 = CHR ''-'');
          s1 = (if s0 \<noteq> [] \<and> (hd s0 = CHR ''-'' \<or> hd s0 = CHR ''+'') then tl s0 else s0);
          hex = (prefix ''0x'' s1 \<or> prefix ''0X'' s1);
          r = (if hex then 16 else 10);
          s2 = (if hex then drop 2 s1 else s1);
          z = takeWhile (is_radix_digit r) s2
      in if z = [] then None
         else Some ((if neg then - 1 else 1) * int (radix_value r z)))"

subsection \<open>JSON\<close>

definition hex_char :: "nat \<Rightarrow> char" where
  "hex_char d = ''0123456789abcdef'' ! d"

definition json_escape :: "char \<Rightarrow> string" where
  "json_escape ch =
     (if ch = CHR 0x22 then [CHR 0x5C, CHR 0x22]
      else if ch = CHR 0x5C then [CHR 0x5C, CHR 0x5C]
      else if ch = CHR 0x08 then [CHR 0x5C, CHR ''b'']
      else if ch = CHR 0x0C then [CHR 0x5C, CHR ''f'']
      else if ch = CHR 0x0A then [CHR 0x5C, CHR ''n'']
      else if ch = CHR 0x0D then [CHR 0x5C, CHR ''r'']
      else if ch = CHR 0x09 then [CHR 0x5C, CHR ''t'']
      else if (of_char ch :: nat) < 32
        then [CHR 0x5C, CHR ''u'', CHR ''0'', CHR ''0'',
              hex_char (of_char ch div 16), hex_char (of_char ch mod 16)]
      else [ch])"

definition json_quote :: "string \<Rightarrow> string" where
  "json_quote s = CHR 0x22 # concat (map json_escape s) @ [CHR 0x22]"

fun join_comma :: "string list \<Rightarrow> string" where
  "join_comma [] = []"
| "join_comma [t] = t"
| "join_comma (t # u # ts) = t @ '','' @ join_comma (u # ts)"

text \<open>
  \<open>JSON.stringify(value)\<close>: \<open>None\<close> is the result \<open>undefined\<close> (for
  \<open>undefined\<close> and for a function). Inside an array such an element is written
  \<open>null\<close>, inside an object the property is left out. No value of \<open>jsval\<close>
  makes it throw (that takes a cyclic object or a BigInt).
\<close>

fun json_stringify :: "jsval \<Rightarrow> string option" where
  "json_stringify JUndefined = None"
| "json_stringify JFun = None"
| "json_stringify JNull = Some ''null''"
| "json_stringify (JBool b) = Some (if b then ''true'' else ''false'')"
| "json_stringify (JNum n) = Some (num_to_string (sint n))"
| "json_stringify (JStr s) = Some (json_quote s)"
| "json_stringify (JArr vs) =
     Some (''['' @ join_comma (map (\<lambda>v. case json_stringify v of None \<Rightarrow> ''null'' | Some t \<Rightarrow> t) vs) @ '']'')"
| "json_stringify (JObj fs) =
     Some (''{'' @ join_comma (concat (map (\<lambda>kv. case json_stringify (snd kv) of None \<Rightarrow> []
              | Some t \<Rightarrow> [json_quote (fst kv) @ '':'' @ t]) fs)) @ ''}'')"

text \<open>\<open>Buffer.byteLength(text)\<close>: the UTF-8 length; a code unit from 128 on takes two bytes.\<close>

definition byteLength :: "string \<Rightarrow> nat" where
  "byteLength t = length t + length (filter (\<lambda>ch. 128 \<le> (of_char ch :: nat)) t)"

text \<open>
  \<open>JSON.parse(JSON.stringify(v))\<close> on values: what a value looks like once it has been
  written to a segment file and read back.
\<close>

definition unserializable :: "jsval \<Rightarrow> bool" where
  "unserializable v = (v = JUndefined \<or> v = JFun)"

fun json_roundtrip :: "jsval \<Rightarrow> jsval" where
  "json_roundtrip (JArr vs) =
     JArr (map (\<lambda>v. if unserializable v then JNull else json_roundtrip v) vs)"
| "json_roundtrip (JObj fs) =
     JObj (map (\<lambda>kv. (fst kv, json_roundtrip (snd kv))) (filter (\<lambda>kv. \<not> unserializable (snd kv)) fs))"
| "json_roundtrip v = v"

text \<open>The array a segment file yields when \<open>xs\<close> was written to it.\<close>

definition file_image :: "jsval list \<Rightarrow> jsval list" where
  "file_image xs = map (\<lambda>v. if unserializable v then JNull else json_roundtrip v) xs"

subsection \<open>Objects used as dictionaries\<close>

text \<open>
  \<open>this.index\<close>, \<open>this.rindex\<close> and \<open>this.meta.archive\<close> are ordinary objects
  (\<open>{}\<close> or the result of \<open>JSON.parse\<close>). An object is modelled by its own
  properties in creation order. Two features of such objects show in the code:
  a read \<open>obj[key]\<close> also finds the properties inherited from \<open>Object.prototype\<close>,
  and \<open>for (k in obj)\<close> / \<open>Object.keys(obj)\<close> list the array-index names first, in
  ascending numeric order, then the other names in creation order.
\<close>

definition object_prototype_names :: "string list" where
  "object_prototype_names =
     [''constructor'', ''__defineGetter__'', ''__defineSetter__'', ''hasOwnProperty'',
      ''__lookupGetter__'', ''__lookupSetter__'', ''isPrototypeOf'', ''propertyIsEnumerable'',
      ''toString'', ''valueOf'', ''__proto__'', ''toLocaleString'']"

datatype 'a property = Own 'a | Inherited | Missing

definition get_property :: "(string \<times> 'a) list \<Rightarrow> string \<Rightarrow> 'a property" where
  "get_property obj k =
     (case map_of obj k of
        Some v \<Rightarrow> Own v
      | None \<Rightarrow> if k \<in> set object_prototype_names then Inherited else Missing)"

definition is_array_index :: "string \<Rightarrow> bool" where
  "is_array_index k =
     (k \<noteq> [] \<and> list_all is_digit k \<and> digits_of (radix_value 10 k) = k
      \<and> radix_value 10 k < 2 ^ 32 - 1)"

definition own_keys :: "(string \<times> 'a) list \<Rightarrow> string list" where
  "own_keys obj =
     sort_key (radix_value 10) (filter is_array_index (map fst obj))
     @ filter (\<lambda>k. \<not> is_array_index k) (map fst obj)"

text \<open>The own properties in enumeration order, each with its value.\<close>

definition own_entries :: "(string \<times> 'a) list \<Rightarrow> (string \<times> 'a) list" where
  "own_entries obj = map (\<lambda>k. (k, the (map_of obj k))) (own_keys obj)"

subsection \<open>Arrays\<close>

text \<open>\<open>arr[k]\<close> is \<open>undefined\<close> outside the array.\<close>

definition array_get :: "jsval list \<Rightarrow> int \<Rightarrow> jsval" where
  "array_get xs k = (if 0 \<le> k \<and> k < int (length xs) then xs ! nat k else JUndefined)"

text \<open>\<open>arr[k] = v\<close> for \<open>0 \<le> k \<le> arr.length\<close>, the only indices the code writes at:
  at \<open>arr.length\<close> the array grows by one.\<close>

definition array_set :: "jsval list \<Rightarrow> int \<Rightarrow> jsval \<Rightarrow> jsval list" where
  "array_set xs k v = (if k < int (length xs) then xs[nat k := v] else xs @ [v])"

text \<open>\<open>arr.slice(a, b)\<close> for \<open>0 \<le> a \<le> b\<close>.\<close>

definition slice :: "'a list \<Rightarrow> int \<Rightarrow> int \<Rightarrow> 'a list" where
  "slice xs a b = take (nat b - nat a) (drop (nat a) xs)"

section \<open>The store\<close>

record config =
  persist_after_MB :: rat
  persist_after_seconds :: rat
  flush_interval :: rat
  file_prefix_cfg :: string
  max_key_size_bytes :: int
  max_value_size_bytes :: int

text \<open>An entry of the primary index: \<open>{i, f, c}\<close>.\<close>

record entry =
  entry_i :: int
  entry_f :: string
  entry_c :: int

text \<open>
  The fields of a \<open>DBjs\<close> instance. \<open>dir\<close> is the database directory: the segment
  files by name, each with the array \<open>JSON.parse\<close> reads from it. The three snapshot
  files \<open>index.json\<close>, \<open>rindex.json\<close> and \<open>meta.json\<close> are kept apart (\<open>None\<close>: no
  such file), since the code never lists them among the segment files.
\<close>

record db =
  cfg :: config
  cache :: "jsval list"
  cache_file_name :: string
  started :: int
  index :: "(string \<times> entry) list"
  rindex :: "(string \<times> string) list"
  meta_archive :: "(string \<times> int) list"
  dir :: "(string \<times> jsval list) list"
  index_json :: "(string \<times> entry) list option"
  rindex_json :: "(string \<times> string) list option"
  meta_json :: "(string \<times> int) list option"
  memory_cache_read_counter :: nat
  memory_cache_write_counter :: nat
  file_cache_read_counter :: nat
  file_cache_write_counter :: nat
  persist_lock :: bool

datatype js_error = TypeError | ReferenceError | Error string

definition index_size :: "db \<Rightarrow> int" where
  "index_size s = int (length (own_keys (index s)))"

definition cache_size :: "db \<Rightarrow> int" where
  "cache_size s = int (length (cache s))"

definition rindex_size :: "db \<Rightarrow> int" where
  "rindex_size s = int (length (own_keys (rindex s)))"

subsection \<open>Files\<close>

definition existsSync :: "db \<Rightarrow> string \<Rightarrow> bool" where
  "existsSync s name = (map_of (dir s) name \<noteq> None)"

text \<open>\<open>fs.writeFileSync(path, JSON.stringify(arr))\<close>, seen from the next read.\<close>

definition write_json :: "string \<Rightarrow> jsval list \<Rightarrow> (string \<times> jsval list) list \<Rightarrow> (string \<times> jsval list) list" where
  "write_json name arr d = AList.update name (file_image arr) d"

definition renameSync :: "string \<Rightarrow> string \<Rightarrow> (string \<times> jsval list) list \<Rightarrow> (string \<times> jsval list) list" where
  "renameSync old new d =
     (case map_of d old of
        None \<Rightarrow> d
      | Some content \<Rightarrow> AList.update new content (AList.delete old d))"

subsection \<open>Validation and the lock\<close>

definition check_key :: "db \<Rightarrow> jsval \<Rightarrow> int" where
  "check_key s key =
     (case key of
        JStr k \<Rightarrow> if int (length k) > max_key_size_bytes (cfg s) then - 1 else 1
      | _ \<Rightarrow> - 1)"

definition check_value :: "db \<Rightarrow> jsval \<Rightarrow> int" where
  "check_value s v =
     (case json_stringify v of
        None \<Rightarrow> - 1
      | Some stringified \<Rightarrow>
          if int (length stringified) > max_value_size_bytes (cfg s) then - 1 else 1)"

text \<open>
  \<open>_wait_persist_lock\<close> spins while the lock is set; nothing in the loop body clears
  it, so a call made with the lock set never returns (\<open>None\<close>).
\<close>

partial_function (option) wait_persist_lock :: "db \<Rightarrow> unit option" where
  "wait_persist_lock s = (if persist_lock s then wait_persist_lock s else Some ())"

subsection \<open>Locating a value\<close>

definition get_memory_cache_index :: "db \<Rightarrow> string \<Rightarrow> int" where
  "get_memory_cache_index s key =
     (case get_property (index s) key of
        Own e \<Rightarrow>
          (let cache_index = index_size s - (entry_i e + 1)
           in if cache_index < cache_size s then cache_index else - 1)
      | Inherited \<Rightarrow> - 1
      | Missing \<Rightarrow> - 1)"

text \<open>
  For an inherited property \<open>this.index[key].i\<close> is \<open>undefined\<close>, the difference is
  \<open>NaN\<close> and the comparison fails: the result is \<open>-1\<close>.
\<close>

fun archive_offset :: "string \<Rightarrow> (string \<times> int) list \<Rightarrow> int" where
  "archive_offset file [] = 0"
| "archive_offset file ((archive_file, sz) # rest) =
     (if sublist file archive_file then 0 else sz + archive_offset file rest)"

definition get_archived_index :: "db \<Rightarrow> int \<Rightarrow> string \<Rightarrow> int \<Rightarrow> int" where
  "get_archived_index s idx file len =
     (let offset = archive_offset file (own_entries (meta_archive s));
          file_index = idx - offset
      in (len - 1) - file_index)"

text \<open>
  \<open>_update_file\<close> and \<open>_load_from_file\<close> are called once \<open>this.index[key]\<close> is
  truthy. For an inherited property the file name is the prefix followed by
  \<open>undefined\<close>, and the slot computed from \<open>undefined\<close> is \<open>NaN\<close>: nothing is written,
  and the read yields \<open>undefined\<close>.
\<close>

definition update_file :: "string \<Rightarrow> jsval \<Rightarrow> db \<Rightarrow> db" where
  "update_file key val s =
     (case get_property (index s) key of
        Own e \<Rightarrow>
          (let path = file_prefix_cfg (cfg s) @ entry_f e
           in case map_of (dir s) path of
                Some parsed \<Rightarrow>
                  (let s1 = s\<lparr>file_cache_read_counter := file_cache_read_counter s + 1\<rparr>;
                       file_index = get_archived_index s (entry_i e) (entry_f e) (int (length parsed))
                   in if 0 \<le> file_index \<and> file_index \<le> int (length parsed)
                      then s1\<lparr>dir := write_json path (array_set parsed file_index val) (dir s1),
                              file_cache_write_counter := file_cache_write_counter s1 + 1\<rparr>
                      else s1)
              | None \<Rightarrow> s)
      | Inherited \<Rightarrow>
          (case map_of (dir s) (file_prefix_cfg (cfg s) @ ''undefined'') of
             Some parsed \<Rightarrow> s\<lparr>file_cache_read_counter := file_cache_read_counter s + 1\<rparr>
           | None \<Rightarrow> s)
      | Missing \<Rightarrow> s)"

definition load_from_file :: "string \<Rightarrow> db \<Rightarrow> jsval \<times> db" where
  "load_from_file key s =
     (case get_property (index s) key of
        Own e \<Rightarrow>
          (let path = file_prefix_cfg (cfg s) @ entry_f e
           in case map_of (dir s) path of
                Some parsed \<Rightarrow>
                  (let file_index = get_archived_index s (entry_i e) (entry_f e) (int (length parsed))
                   in (array_get parsed file_index,
                       s\<lparr>file_cache_read_counter := file_cache_read_counter s + 1\<rparr>))
              | None \<Rightarrow> (JNull, s))
      | Inherited \<Rightarrow>
          (case map_of (dir s) (file_prefix_cfg (cfg s) @ ''undefined'') of
             Some parsed \<Rightarrow> (JUndefined, s\<lparr>file_cache_read_counter := file_cache_read_counter s + 1\<rparr>)
           | None \<Rightarrow> (JNull, s))
      | Missing \<Rightarrow> (JNull, s))"

subsection \<open>\<open>set\<close> and \<open>get\<close>\<close>

text \<open>
  The part of \<open>set\<close> after validation and the lock, for a string key. \<open>now\<close> is the
  clock reading \<open>(new Date()).getTime()\<close>.
\<close>

definition set_valid :: "int \<Rightarrow> string \<Rightarrow> jsval \<Rightarrow> db \<Rightarrow> db" where
  "set_valid now key val s =
     (case get_property (index s) key of
        Missing \<Rightarrow>
          (let idx = index_size s
           in s\<lparr>cache := val # cache s,
                memory_cache_write_counter := memory_cache_write_counter s + 1,
                index := AList.update key \<lparr>entry_i = idx, entry_f = cache_file_name s, entry_c = now\<rparr> (index s),
                rindex := AList.update (num_to_string idx) key (rindex s)\<rparr>)
      | _ \<Rightarrow>
          (let cache_index = get_memory_cache_index s key
           in if cache_index \<noteq> - 1
              then (if 0 \<le> cache_index \<and> cache_index \<le> int (length (cache s))
                    then s\<lparr>cache := array_set (cache s) cache_index val\<rparr>
                    else s)
                   \<lparr>memory_cache_write_counter := memory_cache_write_counter s + 1\<rparr>
              else update_file key val s))"

definition set_kv :: "int \<Rightarrow> jsval \<Rightarrow> jsval \<Rightarrow> db \<Rightarrow> (bool \<times> db) option" where
  "set_kv now key val s =
     (if check_key s key \<noteq> 1 then Some (False, s)
      else if check_value s val \<noteq> 1 then Some (False, s)
      else case wait_persist_lock s of
             None \<Rightarrow> None
           | Some u \<Rightarrow>
               (case key of
                  JStr k \<Rightarrow> Some (True, set_valid now k val s)
                | _ \<Rightarrow> Some (False, s)))"

definition get :: "jsval \<Rightarrow> db \<Rightarrow> (jsval \<times> db) option" where
  "get key s =
     (if check_key s key \<noteq> 1 then Some (JUndefined, s)
      else case wait_persist_lock s of
             None \<Rightarrow> None
           | Some u \<Rightarrow>
               (case key of
                  JStr k \<Rightarrow>
                    (case get_property (index s) k of
                       Missing \<Rightarrow> Some (JUndefined, s)
                     | _ \<Rightarrow>
                         (let cache_index = get_memory_cache_index s k
                          in if cache_index \<noteq> - 1
                             then Some (array_get (cache s) cache_index,
                                        s\<lparr>memory_cache_read_counter := memory_cache_read_counter s + 1\<rparr>)
                             else Some (load_from_file k s)))
                | _ \<Rightarrow> Some (JUndefined, s)))"

text \<open>Only for tests: the index entry of a key.\<close>

definition get_key_index_entry :: "db \<Rightarrow> string \<Rightarrow> entry property" where
  "get_key_index_entry s key = get_property (index s) key"

subsection \<open>Checkpoint and rotation\<close>

text \<open>\<open>round(number, decimalPlaces)\<close>; \<open>Math.round\<close> is \<open>\<lfloor>x + 1/2\<rfloor>\<close>, which is \<^const>\<open>round\<close>.\<close>

definition round_places :: "rat \<Rightarrow> nat \<Rightarrow> rat" where
  "round_places number decimalPlaces =
     (let factorOfTen = 10 ^ decimalPlaces
      in of_int (round (number * factorOfTen)) / factorOfTen)"

text \<open>The size of the serialized cache in MiB, to three decimal places.\<close>

definition mbsize :: "string \<Rightarrow> rat" where
  "mbsize stringified = round_places (of_nat (byteLength stringified) / (1024 * 1024)) 3"

definition flush :: "db \<Rightarrow> string \<times> db" where
  "flush s =
     (let stringified = (case json_stringify (JArr (cache s)) of Some t \<Rightarrow> t | None \<Rightarrow> []);
          s1 = (if cache_size s > 0
                then s\<lparr>dir := write_json (cache_file_name s) (cache s) (dir s)\<rparr>
                else s)
      in (stringified,
          s1\<lparr>index_json := Some (index s1), rindex_json := Some (rindex s1),
             meta_json := Some (meta_archive s1)\<rparr>))"

definition create_cache_file :: "int \<Rightarrow> db \<Rightarrow> db" where
  "create_cache_file now s =
     (let name = num_to_string now @ ''.json''
      in s\<lparr>cache_file_name := name, cache := [], dir := write_json name [] (dir s)\<rparr>)"

text \<open>
  \<open>_persist\<close> reads the clock three times: for the age of the cache (\<open>t_delta\<close>), for
  the name of the next cache file (\<open>t_file\<close>) and for the new value of \<open>started\<close>
  (\<open>t_started\<close>).
\<close>

definition persist :: "int \<Rightarrow> int \<Rightarrow> int \<Rightarrow> db \<Rightarrow> db" where
  "persist t_delta t_file t_started s0 =
     (let (stringified, s2) = flush (s0\<lparr>persist_lock := True\<rparr>);
          delta = of_int (t_delta - started s2) / 1000;
          space_exceeded = (mbsize stringified \<ge> persist_after_MB (cfg s2));
          time_exceeded = (delta \<ge> persist_after_seconds (cfg s2));
          archive = (space_exceeded \<or> time_exceeded);
          s3 = (if archive \<and> cache_size s2 > 0
                then (let archived_name = file_prefix_cfg (cfg s2) @ cache_file_name s2;
                          s4 = s2\<lparr>dir := renameSync (cache_file_name s2) archived_name (dir s2)\<rparr>;
                          s5 = s4\<lparr>meta_archive := AList.update archived_name (cache_size s4) (meta_archive s4)\<rparr>;
                          s6 = s5\<lparr>meta_json := Some (meta_archive s5)\<rparr>
                      in (create_cache_file t_file s6)\<lparr>started := t_started\<rparr>)
                else s2)
      in s3\<lparr>persist_lock := False\<rparr>)"

subsection \<open>Listing the segment files\<close>

text \<open>
  The first match of the regular expression \<open>(\d+)\.json\<close> in a file name, as a
  number: the first run of digits that \<open>.json\<close> follows.
\<close>

function file_time :: "string \<Rightarrow> nat option" where
  "file_time [] = None"
| "file_time (ch # rest) =
     (if is_digit ch
      then (if prefix ''.json'' (dropWhile is_digit rest)
            then Some (radix_value 10 (ch # takeWhile is_digit rest))
            else file_time (dropWhile is_digit rest))
      else file_time rest)"
  by pat_completeness auto
termination
  by (relation "measure length") (auto simp: length_dropWhile_le less_Suc_eq_le)

definition file_time_num :: "string \<Rightarrow> nat" where
  "file_time_num file = (case file_time file of Some t \<Rightarrow> t | None \<Rightarrow> 0)"

text \<open>
  \<open>_getFiles\<close>: the names in directory order, without the cache file unless asked for,
  sorted by the comparator \<open>time_b[1] - time_a[1]\<close> (newest first; the sort is
  stable). The comparator throws a \<open>TypeError\<close> on a name the expression does not
  match; it runs as soon as there are two names.
\<close>

definition getFiles :: "bool \<Rightarrow> db \<Rightarrow> js_error + string list" where
  "getFiles include_memory_cache_file s =
     (let filtered = filter (\<lambda>file. include_memory_cache_file \<or> sublist (file_prefix_cfg (cfg s)) file)
                       (map fst (dir s))
      in if 2 \<le> length filtered \<and> (\<exists>file \<in> set filtered. file_time file = None)
         then Inl TypeError
         else Inr (sort_key (\<lambda>file. - int (file_time_num file)) filtered))"

text \<open>Reading a listed file; the code reads only names it has just listed.\<close>

definition read_json :: "db \<Rightarrow> string \<Rightarrow> jsval list" where
  "read_json s file = (case map_of (dir s) file of Some parsed \<Rightarrow> parsed | None \<Rightarrow> [])"

subsection \<open>Range queries\<close>

definition nth_num :: "int list \<Rightarrow> int \<Rightarrow> int option" where
  "nth_num xs k = (if 0 \<le> k \<and> k < int (length xs) then Some (xs ! nat k) else None)"

text \<open>
  The loop of \<open>_binary_search\<close>. An element read outside the array is \<open>undefined\<close>,
  which is neither equal to nor less than the key.
\<close>

function binary_search_loop :: "int list \<Rightarrow> int \<Rightarrow> int \<Rightarrow> int \<Rightarrow> int \<times> int" where
  "binary_search_loop sortedArray key start en =
     (if start \<le> en
      then (let middle = (start + en) div 2
            in case nth_num sortedArray middle of
                 Some x \<Rightarrow>
                   if x = key then (start, en)
                   else if x < key then binary_search_loop sortedArray key (middle + 1) en
                   else binary_search_loop sortedArray key start (middle - 1)
               | None \<Rightarrow> binary_search_loop sortedArray key start (middle - 1))
      else (start, en))"
  by pat_completeness auto
termination
  by (relation "measure (\<lambda>(a, k, start, en). nat (en - start + 1))") auto

definition binary_search :: "int list \<Rightarrow> int \<Rightarrow> int \<times> int" where
  "binary_search sortedArray key = binary_search_loop sortedArray key 0 (int (length sortedArray) - 1)"

definition insertion_times :: "db \<Rightarrow> int list" where
  "insertion_times s = map (\<lambda>kv. entry_c (snd kv)) (own_entries (index s))"

definition binary_search_index :: "db \<Rightarrow> int \<Rightarrow> int" where
  "binary_search_index s ts = snd (binary_search (insertion_times s) ts)"

text \<open>An argument of \<open>getn\<close>: \<open>null\<close>, an array of two numbers, or anything else.\<close>

datatype range_arg = RNull | RPair int int | RInvalid

fun files_up_to :: "string \<Rightarrow> string list \<Rightarrow> string list" where
  "files_up_to up_to_file [] = []"
| "files_up_to up_to_file (file # files) =
     (if sublist up_to_file file then [file] else file # files_up_to up_to_file files)"

text \<open>
  The end of \<open>getn\<close>, from the comment \<open>if we are overshooting, just return all data\<close>
  on. The property of \<open>this.rindex\<close> is read under the name of a number, which is never
  a name of \<open>Object.prototype\<close>; a missing or empty key reaches the branch that
  mentions the undeclared variable \<open>retn\<close>.
\<close>

definition getn_from :: "int \<Rightarrow> int \<Rightarrow> db \<Rightarrow> (js_error + jsval list) \<times> db" where
  "getn_from start0 end0 s =
     (let size = index_size s;
          start_index = (if end0 > size \<or> start0 > size then 0 else start0);
          end_index = (if end0 > size \<or> start0 > size then size else end0)
      in if start_index < 0 \<or> end_index < 0 \<or> start_index > end_index then (Inr [], s)
         else if end_index \<le> int (length (cache s))
         then (Inr (slice (cache s) start_index end_index),
               s\<lparr>memory_cache_read_counter := memory_cache_read_counter s + 1\<rparr>)
         else (case map_of (rindex s) (num_to_string (size - end_index)) of
                 None \<Rightarrow> (Inl ReferenceError, s)
               | Some key \<Rightarrow>
                   if key = [] then (Inl ReferenceError, s)
                   else (case get_property (index s) key of
                           Missing \<Rightarrow> (Inl TypeError, s)
                         | p \<Rightarrow>
                            (let up_to_file = (case p of Own e \<Rightarrow> entry_f e | _ \<Rightarrow> ''undefined'')
                             in case getFiles False s of
                                  Inl err \<Rightarrow> (Inl err, s)
                                | Inr files \<Rightarrow>
                                   (let to_load = files_up_to up_to_file files;
                                        retval = cache s @ concat (map (read_json s) to_load)
                                    in (Inr (slice retval start_index end_index),
                                        s\<lparr>memory_cache_read_counter := memory_cache_read_counter s + 1,
                                           file_cache_read_counter := file_cache_read_counter s + length to_load\<rparr>))))))"

definition getn :: "range_arg \<Rightarrow> range_arg \<Rightarrow> db \<Rightarrow> ((js_error + jsval list) \<times> db) option" where
  "getn index_range time_range s =
     (case wait_persist_lock s of
        None \<Rightarrow> None
      | Some u \<Rightarrow>
          if index_range = RInvalid then Some (Inr [], s)
          else if time_range = RInvalid then Some (Inr [], s)
          else (case time_range of
                  RPair t0 t1 \<Rightarrow>
                    Some (getn_from (binary_search_index s t0 + 1) (binary_search_index s t1 + 1) s)
                | _ \<Rightarrow>
                   (case index_range of
                      RPair a b \<Rightarrow> Some (getn_from a b s)
                    | _ \<Rightarrow> Some (getn_from 0 (cache_size s) s))))"

subsection \<open>\<open>filter\<close>\<close>

text \<open>
  \<open>filter(callback_str, limit)\<close> hands the caller's text to \<open>eval\<close> once for every
  truthy item. What the text does is up to the interpreter, which is a parameter here:
  \<open>ev text data (results, obj)\<close> is the value of the two local variables the text is
  meant to fill after the run, or the message of the error it threw. \<open>limit\<close> is
  \<open>None\<close> when it is not an integer.
\<close>

type_synonym scope = "jsval \<times> jsval"
type_synonym evaluator = "string \<Rightarrow> jsval \<Rightarrow> scope \<Rightarrow> string + scope"

fun eval_each :: "evaluator \<Rightarrow> string \<Rightarrow> jsval list \<Rightarrow> scope \<Rightarrow> string + scope" where
  "eval_each ev callback_str [] sc = Inr sc"
| "eval_each ev callback_str (data # rest) sc =
     (if truthy data
      then (case ev callback_str data sc of
              Inl err \<Rightarrow> Inl err
            | Inr sc' \<Rightarrow> eval_each ev callback_str rest sc')
      else eval_each ev callback_str rest sc)"

definition limit_reached :: "int option \<Rightarrow> int \<Rightarrow> bool" where
  "limit_reached limit num = (case limit of None \<Rightarrow> False | Some l \<Rightarrow> num \<ge> l)"

fun filter_files :: "evaluator \<Rightarrow> string \<Rightarrow> int option \<Rightarrow> string list \<Rightarrow> int \<Rightarrow> scope \<Rightarrow> db \<Rightarrow> jsval \<times> db" where
  "filter_files ev callback_str limit [] num sc s =
     (JObj [(''results'', fst sc), (''obj'', snd sc)], s)"
| "filter_files ev callback_str limit (file # files) num sc s =
     (let parsed_data = read_json s file;
          s1 = s\<lparr>file_cache_read_counter := file_cache_read_counter s + 1\<rparr>;
          num1 = num + int (length parsed_data)
      in case eval_each ev callback_str parsed_data sc of
           Inl err \<Rightarrow> (JStr err, s1)
         | Inr sc' \<Rightarrow>
             if limit_reached limit num1
             then (JObj [(''results'', fst sc'), (''obj'', snd sc')], s1)
             else filter_files ev callback_str limit files num1 sc' s1)"

definition filter_cb :: "evaluator \<Rightarrow> string \<Rightarrow> int option \<Rightarrow> db \<Rightarrow> (js_error + jsval) \<times> db" where
  "filter_cb ev callback_str limit s =
     (case getFiles False s of
        Inl err \<Rightarrow> (Inl err, s)
      | Inr files \<Rightarrow>
          (let s1 = s\<lparr>memory_cache_read_counter := memory_cache_read_counter s + 1\<rparr>
           in case eval_each ev callback_str (cache s) (JArr [], JObj []) of
                Inl err \<Rightarrow> (Inr (JStr err), s1)
              | Inr sc \<Rightarrow>
                  if limit_reached limit (int (length (cache s)))
                  then (Inr (fst sc), s1)
                  else (case filter_files ev callback_str limit files (int (length (cache s))) sc s1 of
                          (r, s2) \<Rightarrow> (Inr r, s2))))"

subsection \<open>Start-up\<close>

definition check_config :: "config \<Rightarrow> bool" where
  "check_config c =
     (\<not> (persist_after_MB c \<le> 0 \<or> persist_after_MB c > 100)
      \<and> \<not> (persist_after_seconds c \<le> 4 \<or> persist_after_seconds c > 100 * 24 * 60 * 60)
      \<and> \<not> (flush_interval c \<le> 3 \<or> flush_interval c > 10 * 60 * 60)
      \<and> \<not> (max_key_size_bytes c \<le> 100 \<or> max_key_size_bytes c > 1024 * 64)
      \<and> \<not> (max_value_size_bytes c < 1024 \<or> max_value_size_bytes c > 1048576 * 10)
      \<and> \<not> (length (file_prefix_cfg c) \<le> 0 \<or> CHR ''_'' \<notin> set (file_prefix_cfg c)))"

text \<open>The defaults of the constructor.\<close>

definition default_config :: config where
  "default_config =
     \<lparr>persist_after_MB = 20, persist_after_seconds = 12 * 60 * 60, flush_interval = 5 * 60,
      file_prefix_cfg = ''dbjs_'', max_key_size_bytes = 1024, max_value_size_bytes = 1048576\<rparr>"

text \<open>
  The sum that \<open>reduce((a, b) => a + b)\<close> forms of the parsed names of
  \<open>this.rindex\<close>; \<open>None\<close> is \<open>NaN\<close>.
\<close>

definition rindex_key_sum :: "string list \<Rightarrow> int option" where
  "rindex_key_sum names =
     foldl (\<lambda>acc k. case acc of
                       None \<Rightarrow> None
                     | Some a \<Rightarrow> (case js_parseInt k of None \<Rightarrow> None | Some b \<Rightarrow> Some (a + b)))
       (Some 0) names"

definition rindex_healthy :: "db \<Rightarrow> bool" where
  "rindex_healthy s =
     (let rindex_keys = own_keys (rindex s);
          sum2 = (int (length rindex_keys) - 1) * int (length rindex_keys) div 2
      in rindex_key_sum rindex_keys = Some sum2)"

definition consistency_checks :: "db \<Rightarrow> js_error + unit" where
  "consistency_checks s =
     (if rindex_size s > 0 \<and> \<not> rindex_healthy s
      then Inl (Error ''ConsistencyCheck: Broken rindex'')
      else if index_size s \<noteq> rindex_size s
      then Inl (Error ''ConsistencyCheck: Conflicting index sizes'')
      else (case getFiles False s of
              Inl err \<Rightarrow> Inl err
            | Inr files \<Rightarrow>
                if \<exists>file \<in> set files. get_property (meta_archive s) file = Missing
                then Inl (Error ''ConsistencyCheck: file not included in meta.json archive'')
                else (case getFiles True s of
                        Inl err \<Rightarrow> Inl err
                      | Inr all_files \<Rightarrow>
                          (let num_items = sum_list (map (\<lambda>file. int (length (read_json s file))) all_files);
                               sum = sum_list (map snd (own_entries (meta_archive s)))
                           in if index_size s \<noteq> num_items \<and> num_items \<noteq> rindex_size s
                              then Inl (Error ''ConsistencyCheck: Conflicting number of items in database'')
                              else if sum \<noteq> index_size s - cache_size s \<or> sum \<noteq> rindex_size s - cache_size s
                              then Inl (Error ''ConsistencyCheck: meta archive file size does not amount to index/rindex size'')
                              else Inr ()))))"

text \<open>What the constructor finds in the database directory.\<close>

record disk =
  disk_dir :: "(string \<times> jsval list) list"
  disk_index :: "(string \<times> entry) list option"
  disk_rindex :: "(string \<times> string) list option"
  disk_meta :: "(string \<times> int) list option"

definition empty_disk :: disk where
  "empty_disk = \<lparr>disk_dir = [], disk_index = None, disk_rindex = None, disk_meta = None\<rparr>"

definition load_cache :: "int \<Rightarrow> db \<Rightarrow> js_error + db" where
  "load_cache now s =
     (case getFiles True s of
        Inl err \<Rightarrow> Inl err
      | Inr files \<Rightarrow>
          (case filter (\<lambda>file. file \<noteq> [] \<and> \<not> sublist (file_prefix_cfg (cfg s)) file) files of
             actual # others \<Rightarrow> Inr (s\<lparr>cache := read_json s actual, cache_file_name := actual\<rparr>)
           | [] \<Rightarrow> Inr (create_cache_file now s)))"

text \<open>
  The object as the constructor has it when it calls \<open>_load_cache\<close>: the
  configuration, an empty cache, \<open>started\<close>, and the database directory as it was
  found. The three files \<open>index.json\<close>, \<open>rindex.json\<close> and \<open>meta.json\<close> are read
  after the cache.
\<close>

definition blank_store :: "config \<Rightarrow> disk \<Rightarrow> int \<Rightarrow> db" where
  "blank_store c d t_started =
     \<lparr>cfg = c, cache = [], cache_file_name = [], started = t_started,
      index = [], rindex = [], meta_archive = [], dir = disk_dir d,
      index_json = disk_index d, rindex_json = disk_rindex d, meta_json = disk_meta d,
      memory_cache_read_counter = 0, memory_cache_write_counter = 0,
      file_cache_read_counter = 0, file_cache_write_counter = 0,
      persist_lock = False\<rparr>"

text \<open>
  \<open>new DBjs(user_config)\<close> for a configuration \<open>c\<close> already merged with the defaults.
  The clock is read for \<open>started\<close> first and then, when no cache file is found, for
  the name of the new one. An error is the exception that leaves the constructor.
\<close>

definition constructor :: "config \<Rightarrow> disk \<Rightarrow> int \<Rightarrow> int \<Rightarrow> js_error + db" where
  "constructor c d t_started t_file =
     (if \<not> check_config c then Inl (Error ''InvalidConfig'')
      else (case load_cache t_file (blank_store c d t_started) of
              Inl err \<Rightarrow> Inl err
            | Inr s1 \<Rightarrow>
                (let s2 = s1\<lparr>index := (case index_json s1 of Some ix \<Rightarrow> ix | None \<Rightarrow> []),
                             rindex := (case rindex_json s1 of Some rx \<Rightarrow> rx | None \<Rightarrow> []),
                             meta_archive := (case meta_json s1 of Some m \<Rightarrow> m | None \<Rightarrow> [])\<rparr>
                 in case consistency_checks s2 of
                      Inl err \<Rightarrow> Inl err
                    | Inr u \<Rightarrow> Inr s2)))"

text \<open>The store the constructor builds in an empty directory.\<close>

definition empty_store :: "config \<Rightarrow> int \<Rightarrow> int \<Rightarrow> db" where
  "empty_store c t_started t_file =
     \<lparr>cfg = c, cache = [], cache_file_name = num_to_string t_file @ ''.json'', started = t_started,
      index = [], rindex = [], meta_archive = [],
      dir = [(num_to_string t_file @ ''.json'', [])],
      index_json = None, rindex_json = None, meta_json = None,
      memory_cache_read_counter = 0, memory_cache_write_counter = 0,
      file_cache_read_counter = 0, file_cache_write_counter = 0,
      persist_lock = False\<rparr>"

section \<open>Example stores\<close>

text \<open>A store as the constructor would assemble it from a given \<open>rindex.json\<close>.\<close>

definition loaded_example :: "(string \<times> string) list \<Rightarrow> db" where
  "loaded_example rx = (empty_store default_config 1700000000000 1700000000001)\<lparr>rindex := rx\<rparr>"

text \<open>The empty store, and the store after \<open>set('alpha', 'beta')\<close>.\<close>

definition store0 :: db where
  "store0 = empty_store default_config 1700000000000 1700000000001"


text \<open>
  The position the specification describes for a boundary of a time range: the
  insertion point in the ascending sequence, the first matching position on a tie.
\<close>

definition insertion_point :: "int list \<Rightarrow> int \<Rightarrow> int" where
  "insertion_point xs t = int (length (takeWhile (\<lambda>x. x < t) xs))"

text \<open>The store after three insertions, one millisecond apart.\<close>

definition store3 :: db where
  "store3 = set_valid 1700000000004 ''gamma'' (JStr ''v3'')
              (set_valid 1700000000003 ''beta'' (JStr ''v2'')
                (set_valid 1700000000002 ''alpha'' (JStr ''v1'') store0))"

text \<open>
  The traversal the specification describes for \<open>scan\<close> and \<open>filter\<close>: the cache
  first, then the sealed segments in the given order, up to and including the segment
  at which the running item count reaches the limit.
\<close>

fun visited_segments :: "int option \<Rightarrow> int \<Rightarrow> jsval list list \<Rightarrow> jsval list list" where
  "visited_segments limit num [] = []"
| "visited_segments limit num (seg # segs) =
     (if limit_reached limit (num + int (length seg)) then [seg]
      else seg # visited_segments limit (num + int (length seg)) segs)"

definition visited :: "int option \<Rightarrow> db \<Rightarrow> string list \<Rightarrow> jsval list" where
  "visited limit s files =
     cache s @ (if limit_reached limit (int (length (cache s))) then []
                else concat (visited_segments limit (int (length (cache s))) (map (read_json s) files)))"

text \<open>
  What \<open>eval\<close> does with the text \<open>results.push(0)\<close> inside \<open>filter\<close>: it appends
  \<open>0\<close> to the local array \<open>results\<close>.
\<close>

definition eval_push_zero :: evaluator where
  "eval_push_zero callback_str data sc =
     (case fst sc of
        JArr rs \<Rightarrow> Inr (JArr (rs @ [JNum 0]), snd sc)
      | _ \<Rightarrow> Inl ''TypeError: results.push is not a function'')"

text \<open>What \<open>eval\<close> does with the text \<open>results.push(data)\<close> inside \<open>filter\<close>.\<close>

definition eval_push_data :: evaluator where
  "eval_push_data callback_str data sc =
     (case fst sc of
        JArr rs \<Rightarrow> Inr (JArr (rs @ [data]), snd sc)
      | _ \<Rightarrow> Inl ''TypeError: results.push is not a function'')"

text \<open>
  \<open>store3\<close> after a checkpoint twelve hours later, which seals its three values, and
  one more insertion.
\<close>

definition store4 :: db where
  "store4 = set_valid 1700043200005 ''delta'' (JStr ''v4'')
              (persist 1700043200002 1700043200003 1700043200004 store3)"

section \<open>Runs of the store\<close>

text \<open>
  The public operations that the claims about sequences of operations speak of, each
  with the clock readings it takes. \<open>Persist\<close> is \<open>_persist\<close>, the checkpoint, which
  rotates when its condition holds.
\<close>

datatype operation =
    Put int jsval jsval
  | Get jsval
  | GetN range_arg range_arg
  | Persist int int int

fun step :: "operation \<Rightarrow> db \<Rightarrow> db option" where
  "step (Put now key val) s = map_option snd (set_kv now key val s)"
| "step (Get key) s = map_option snd (get key s)"
| "step (GetN index_range time_range) s = map_option snd (getn index_range time_range s)"
| "step (Persist t_delta t_file t_started) s = Some (persist t_delta t_file t_started s)"

fun run :: "operation list \<Rightarrow> db \<Rightarrow> db option" where
  "run [] s = Some s"
| "run (op1 # ops) s = (case step op1 s of None \<Rightarrow> None | Some s' \<Rightarrow> run ops s')"

text \<open>The name of the cache file created at clock reading \<open>t\<close>.\<close>

definition segment_file :: "int \<Rightarrow> string" where
  "segment_file t = num_to_string t @ ''.json''"

text \<open>
  The assumption on the clock: the readings taken for file names increase strictly from
  one checkpoint to the next and are written with the same number of digits (as
  millisecond timestamps are between the years 2001 and 2286). \<open>t\<close> is the latest
  such reading.
\<close>

fun well_timed :: "int \<Rightarrow> operation list \<Rightarrow> bool" where
  "well_timed t [] = True"
| "well_timed t (Persist t_delta t_file t_started # ops) =
     (t < t_file \<and> length (num_to_string t_file) = length (num_to_string t) \<and> well_timed t_file ops)"
| "well_timed t (op1 # ops) = well_timed t ops"

text \<open>The condition under which \<open>_persist\<close> rotates (\<open>archive && this.cache_size() > 0\<close>).\<close>

definition rotation_due :: "int \<Rightarrow> db \<Rightarrow> bool" where
  "rotation_due t_delta s =
     ((mbsize (fst (flush s)) \<ge> persist_after_MB (cfg s)
       \<or> of_int (t_delta - started s) / 1000 \<ge> persist_after_seconds (cfg s))
      \<and> cache s \<noteq> [])"

section \<open>The invariant of a run\<close>

text \<open>
  The sealed segments of a store, oldest first: for each the clock reading its file was
  named after, and its item count.
\<close>

type_synonym segments = "(int \<times> nat) list"

definition archive_name :: "config \<Rightarrow> int \<Rightarrow> string" where
  "archive_name c t = file_prefix_cfg c @ segment_file t"

definition index_inv :: "int \<Rightarrow> segments \<Rightarrow> db \<Rightarrow> bool" where
  "index_inv t segs s \<longleftrightarrow>
     \<not> persist_lock s
     \<and> CHR ''_'' \<in> set (file_prefix_cfg (cfg s))
     \<and> cache_file_name s = segment_file t
     \<and> meta_archive s = map (\<lambda>seg. (archive_name (cfg s) (fst seg), int (snd seg))) segs
     \<and> sorted_wrt (<) (map fst segs)
     \<and> (\<forall>seg\<in>set segs. fst seg < t \<and> length (num_to_string (fst seg)) = length (num_to_string t)
                         \<and> 0 < snd seg)
     \<and> distinct (map fst (index s))
     \<and> (\<forall>k\<in>fst ` set (index s). k \<notin> set object_prototype_names)
     \<and> map (\<lambda>kv. entry_i (snd kv)) (index s) = map int [0..<length (index s)]
     \<and> rindex s = map (\<lambda>j. (num_to_string (int j), fst (index s ! j))) [0..<length (index s)]
     \<and> map (\<lambda>kv. entry_f (snd kv)) (index s)
         = concat (map (\<lambda>seg. replicate (snd seg) (segment_file (fst seg))) segs)
           @ replicate (length (cache s)) (segment_file t)"

text \<open>
  Two stores that differ at most in the contents (not the length) of the cache, in the
  files and in the counters.
\<close>

definition same_frame :: "db \<Rightarrow> db \<Rightarrow> bool" where
  "same_frame s s' \<longleftrightarrow>
     cfg s' = cfg s \<and> cache_file_name s' = cache_file_name s \<and> started s' = started s
     \<and> index s' = index s \<and> rindex s' = rindex s \<and> meta_archive s' = meta_archive s
     \<and> persist_lock s' = persist_lock s \<and> length (cache s') = length (cache s)"




text \<open>A value as a segment file returns it: an element of the array written there.\<close>

definition json_element :: "jsval \<Rightarrow> jsval" where
  "json_element v = (if unserializable v then JNull else json_roundtrip v)"






section \<open>Basic facts\<close>

lemma wait_persist_lock_unlocked [simp]: "\<not> persist_lock s \<Longrightarrow> wait_persist_lock s = Some ()"
  by (subst wait_persist_lock.simps) simp

lemma length_own_keys [simp]: "length (own_keys obj) = length obj"
proof -
  have "length (filter is_array_index (map fst obj)) + length (filter (\<lambda>k. \<not> is_array_index k) (map fst obj))
        = length (map fst obj)"
    by (rule sum_length_filter_compl)
  then show ?thesis by (simp add: own_keys_def)
qed

lemma index_size_length [simp]: "index_size s = int (length (index s))"
  by (simp add: index_size_def)

lemma rindex_size_length [simp]: "rindex_size s = int (length (rindex s))"
  by (simp add: rindex_size_def)

declare digits_of.simps [simp del]
declare binary_search_loop.simps [simp del]

lemma digit_value_digit_char: "d < 10 \<Longrightarrow> digit_value (digit_char d) = Some d"
proof -
  assume "d < 10"
  then have "d = 0 \<or> d = 1 \<or> d = 2 \<or> d = 3 \<or> d = 4 \<or> d = 5 \<or> d = 6 \<or> d = 7 \<or> d = 8 \<or> d = 9"
    by arith
  then show ?thesis
    by (elim disjE) (simp_all add: digit_char_def digit_value_def)
qed

lemma is_digit_digit_char: "d < 10 \<Longrightarrow> is_digit (digit_char d)"
  by (simp add: is_digit_def is_radix_digit_def digit_value_digit_char)

lemma digits_of_all_digits: "list_all is_digit (digits_of n)"
proof (induction n rule: digits_of.induct)
  case (1 n)
  show ?case
  proof (cases "n < 10")
    case True
    then show ?thesis
      by (subst digits_of.simps) (simp add: is_digit_digit_char)
  next
    case False
    then show ?thesis
      using 1 by (subst digits_of.simps) (simp add: is_digit_digit_char)
  qed
qed

lemma not_digit_underscore: "\<not> is_digit (CHR ''_'')"
  by (simp add: is_digit_def is_radix_digit_def digit_value_def)

lemma underscore_not_in_cache_name: "CHR ''_'' \<notin> set (num_to_string t @ ''.json'')"
proof -
  have "CHR ''_'' \<notin> set (digits_of n)" for n
    using digits_of_all_digits [of n] not_digit_underscore by (auto simp: list_all_iff)
  then show ?thesis
    by (simp add: num_to_string_def)
qed

lemma prefix_not_in_cache_name:
  assumes "CHR ''_'' \<in> set p"
  shows "\<not> sublist p (num_to_string t @ ''.json'')"
proof
  assume "sublist p (num_to_string t @ ''.json'')"
  then have "set p \<subseteq> set (num_to_string t @ ''.json'')"
    by (rule set_mono_sublist)
  with assms underscore_not_in_cache_name [of t] show False by blast
qed

lemma constructor_empty:
  assumes "check_config c"
  shows "constructor c empty_disk t_started t_file = Inr (empty_store c t_started t_file)"
proof -
  from assms have "CHR ''_'' \<in> set (file_prefix_cfg c)"
    by (simp add: check_config_def)
  then have "\<not> sublist (file_prefix_cfg c) (num_to_string t_file @ ''.json'')"
    by (rule prefix_not_in_cache_name)
  with assms show ?thesis
    by (simp add: constructor_def blank_store_def load_cache_def getFiles_def empty_disk_def create_cache_file_def
        write_json_def file_image_def consistency_checks_def empty_store_def cache_size_def
        own_entries_def own_keys_def read_json_def Let_def)
qed

section \<open>Rejected arguments of \<open>set\<close>\<close>




section \<open>\<open>get\<close> on a name of \<open>Object.prototype\<close>\<close>

text \<open>
  Claim C10 at the key \<open>constructor\<close>, on the empty store: the key is a valid string
  and no entry of the index, yet \<open>get\<close> does not return \<open>undefined\<close>. The read
  \<open>this.index[key]\<close> finds the inherited property, the cache position is \<open>-1\<close>, and
  \<open>_load_from_file\<close> returns \<open>null\<close> for the file that does not exist.
\<close>

theorem get_inherited_name_returns_null:
  "get (JStr ''constructor'') (empty_store default_config 1700000000000 1700000000001)
     = Some (JNull, empty_store default_config 1700000000000 1700000000001)"
  by (simp add: get_def check_key_def get_property_def object_prototype_names_def
      get_memory_cache_index_def load_from_file_def empty_store_def default_config_def
      num_to_string_def digits_of.simps digit_char_def)

section \<open>The sum check on the reverse index\<close>

lemma sum_upto_int: "(\<Sum>i = 0..<int n. i) = (int n - 1) * int n div 2"
proof (induction n)
  case 0
  show ?case by simp
next
  case (Suc n)
  have "{0..<int (Suc n)} = insert (int n) {0..<int n}"
    by auto
  then have "(\<Sum>i = 0..<int (Suc n). i) = int n + (\<Sum>i = 0..<int n. i)"
    by simp
  also have "\<dots> = int n + (int n - 1) * int n div 2"
    by (simp add: Suc.IH)
  also have "\<dots> = (int (Suc n) - 1) * int (Suc n) div 2"
  proof -
    have "even ((int n - 1) * int n)" by simp
    then obtain k where k: "(int n - 1) * int n = 2 * k" by (elim evenE)
    have "(int (Suc n) - 1) * int (Suc n) = 2 * (k + int n)"
      using k by (simp add: algebra_simps)
    then show ?thesis using k by simp
  qed
  finally show ?case .
qed

text \<open>
  Among the finite sets of non-negative integers of a given size, the initial segment
  has the least sum, and no other set reaches it.
\<close>

lemma least_sum_is_segment:
  fixes A :: "int set"
  assumes "finite A" and "\<forall>a\<in>A. 0 \<le> a"
  shows "(\<Sum>i = 0..<int (card A). i) \<le> \<Sum>A
         \<and> (\<Sum>A = (\<Sum>i = 0..<int (card A). i) \<longrightarrow> A = {0..<int (card A)})"
  using assms
proof (induction A rule: finite_linorder_max_induct)
  case empty
  show ?case by simp
next
  case (insert b A)
  have nn: "\<forall>a\<in>A. 0 \<le> a" using insert.prems by simp
  note IH = insert.IH [OF nn]
  have "A \<subseteq> {0..<b}" using insert.hyps(2) nn by auto
  then have "card A \<le> card {0..<b}" by (rule card_mono [rotated]) simp
  moreover have "0 \<le> b" using insert.prems by simp
  ultimately have cb: "int (card A) \<le> b" by simp
  have notin: "b \<notin> A" using insert.hyps(2) by auto
  have seg: "{0..<int (card (insert b A))} = insert (int (card A)) {0..<int (card A)}"
    using insert.hyps(1) notin by auto
  have sumseg: "(\<Sum>i = 0..<int (card (insert b A)). i) = int (card A) + (\<Sum>i = 0..<int (card A). i)"
    by (simp add: seg)
  have sumins: "\<Sum>(insert b A) = b + \<Sum>A"
    using insert.hyps(1) notin by simp
  show ?case
  proof (intro conjI impI)
    show "(\<Sum>i = 0..<int (card (insert b A)). i) \<le> \<Sum>(insert b A)"
      using IH cb by (simp add: sumseg sumins)
  next
    assume eq: "\<Sum>(insert b A) = (\<Sum>i = 0..<int (card (insert b A)). i)"
    then have "b + \<Sum>A = int (card A) + (\<Sum>i = 0..<int (card A). i)"
      by (simp add: sumseg sumins)
    with IH cb have "b = int (card A)" and "\<Sum>A = (\<Sum>i = 0..<int (card A). i)"
      by linarith+
    with IH have "A = {0..<int (card A)}" by blast
    with \<open>b = int (card A)\<close> show "insert b A = {0..<int (card (insert b A))}"
      using seg by simp
  qed
qed

lemma distinct_sum_iff_segment:
  fixes xs :: "int list"
  assumes "distinct xs" and "\<forall>x\<in>set xs. 0 \<le> x"
  shows "sum_list xs = (int (length xs) - 1) * int (length xs) div 2 \<longleftrightarrow> set xs = {0..<int (length xs)}"
proof -
  have card: "card (set xs) = length xs"
    using assms(1) by (rule distinct_card)
  have sum: "sum_list xs = \<Sum>(set xs)"
    using sum_list_distinct_conv_sum_set [OF assms(1), of "\<lambda>x. x"] by simp
  from least_sum_is_segment [of "set xs"] assms(2)
  have "\<Sum>(set xs) = (\<Sum>i = 0..<int (length xs). i) \<longrightarrow> set xs = {0..<int (length xs)}"
    by (simp add: card)
  then show ?thesis
    by (auto simp: sum sum_upto_int [symmetric])
qed

lemma rindex_key_sum_parsed:
  assumes "\<forall>k\<in>set names. js_parseInt k \<noteq> None"
  shows "foldl (\<lambda>acc k. case acc of None \<Rightarrow> None
                 | Some a \<Rightarrow> (case js_parseInt k of None \<Rightarrow> None | Some b \<Rightarrow> Some (a + b)))
           (Some a0) names
         = Some (a0 + sum_list (map (\<lambda>k. the (js_parseInt k)) names))"
  using assms by (induction names arbitrary: a0) (auto simp: algebra_simps)

lemma constructor_passes_checks:
  assumes "constructor c d t_started t_file = Inr s"
  shows "consistency_checks s = Inr ()"
  using assms
  by (auto simp: constructor_def Let_def split: if_splits sum.splits)

lemma getFiles_error: "getFiles b s = Inl err \<Longrightarrow> err = TypeError"
  by (auto simp: getFiles_def Let_def split: if_splits)

lemma load_cache_error: "load_cache now s = Inl err \<Longrightarrow> err = TypeError"
  by (auto simp: load_cache_def dest: getFiles_error split: sum.splits list.splits)

lemma load_cache_rindex_json:
  "load_cache now s = Inr s1 \<Longrightarrow> rindex_json s1 = rindex_json s"
  by (auto simp: load_cache_def create_cache_file_def Let_def split: sum.splits list.splits)

lemma consistency_checks_broken:
  "consistency_checks s = Inl (Error ''ConsistencyCheck: Broken rindex'')
     \<longleftrightarrow> rindex_size s > 0 \<and> \<not> rindex_healthy s"
  by (auto simp: consistency_checks_def Let_def dest: getFiles_error split: sum.splits if_splits)

text \<open>
  Claim C8. Let \<open>rindex.json\<close> hold at least one name, and let the names parse
  (\<open>parseInt\<close>) to distinct non-negative integers; they are \<open>contiguous\<close> when the
  parsed names are \<open>0, \<dots>, n - 1\<close>. In every store with this reverse index the check
  that compares the sum of the parsed names with \<open>(n - 1) * n / 2\<close> passes exactly when
  the names are contiguous, and \<open>_consistency_checks\<close> throws \<open>Broken rindex\<close>
  exactly when they are not. When they are not, the constructor does not return a
  store, for any configuration and directory: it throws, and what it throws is
  \<open>Broken rindex\<close> once the configuration is valid and the cache has been loaded.
  When they are contiguous, the constructor does not throw \<open>Broken rindex\<close>.
\<close>

theorem rindex_sum_check_iff_contiguous:
  fixes rx :: "(string \<times> string) list"
  defines "names \<equiv> own_keys rx"
  defines "contiguous \<equiv> (\<lambda>k. the (js_parseInt k)) ` set names = {0..<int (length names)}"
  assumes "1 \<le> length names"
    and "\<forall>k\<in>set names. \<exists>v\<ge>0. js_parseInt k = Some v"
    and "distinct (map js_parseInt names)"
  shows "(\<forall>s. rindex s = rx \<longrightarrow>
            (rindex_healthy s \<longleftrightarrow> contiguous)
            \<and> (consistency_checks s = Inl (Error ''ConsistencyCheck: Broken rindex'')
                 \<longleftrightarrow> \<not> contiguous))
         \<and> (disk_rindex d = Some rx \<and> \<not> contiguous \<longrightarrow>
              (\<exists>e. constructor c d t_started t_file = Inl e)
              \<and> (check_config c \<and> (\<exists>s1. load_cache t_file (blank_store c d t_started) = Inr s1)
                   \<longrightarrow> constructor c d t_started t_file
                         = Inl (Error ''ConsistencyCheck: Broken rindex'')))
         \<and> (disk_rindex d = Some rx \<and> contiguous \<longrightarrow>
              constructor c d t_started t_file \<noteq> Inl (Error ''ConsistencyCheck: Broken rindex''))"
proof -
  let ?xs = "map (\<lambda>k. the (js_parseInt k)) names"
  have some: "\<forall>k\<in>set names. js_parseInt k \<noteq> None"
    using assms(4) by auto
  have sum: "rindex_key_sum names = Some (sum_list ?xs)"
    unfolding rindex_key_sum_def using rindex_key_sum_parsed [OF some, of 0] by simp
  have "inj_on js_parseInt (set names)" and "distinct names"
    using assms(5) by (simp_all add: distinct_map)
  moreover have "inj_on (\<lambda>k. the (js_parseInt k)) (set names)"
    using \<open>inj_on js_parseInt (set names)\<close> some
    by (auto simp: inj_on_def) (metis option.sel option.exhaust_sel)
  ultimately have dist: "distinct ?xs"
    by (simp add: distinct_map)
  have nonneg: "\<forall>x\<in>set ?xs. 0 \<le> x"
    using assms(4) by auto
  have iff: "rindex_healthy s \<longleftrightarrow> contiguous" if "rindex s = rx" for s
    using distinct_sum_iff_segment [OF dist nonneg] that
    by (simp add: rindex_healthy_def Let_def sum names_def [symmetric] contiguous_def)
  have "rx \<noteq> []" using assms(3) by (auto simp: names_def)
  then have broken: "consistency_checks s = Inl (Error ''ConsistencyCheck: Broken rindex'')
                       \<longleftrightarrow> \<not> contiguous" if "rindex s = rx" for s
    using iff [OF that] that by (simp add: consistency_checks_broken)
  have loaded: "rindex (s1\<lparr>index := ix, rindex := (case rindex_json s1 of Some r \<Rightarrow> r | None \<Rightarrow> []),
                           meta_archive := m\<rparr>) = rx"
    if "disk_rindex d = Some rx" "load_cache t_file (blank_store c d t_started) = Inr s1" for s1 ix m
    using load_cache_rindex_json [OF that(2)] that(1) by (simp add: blank_store_def)
  have aborts: "constructor c d t_started t_file = Inl (Error ''ConsistencyCheck: Broken rindex'')"
    if "disk_rindex d = Some rx" "\<not> contiguous" "check_config c"
      "load_cache t_file (blank_store c d t_started) = Inr s1" for s1
    using that broken [OF loaded [OF that(1,4)]]
    by (simp add: constructor_def Let_def)
  have some_error: "\<exists>e. constructor c d t_started t_file = Inl e"
    if "disk_rindex d = Some rx" "\<not> contiguous"
  proof (cases "check_config c")
    case False
    then show ?thesis by (simp add: constructor_def)
  next
    case True
    show ?thesis
    proof (cases "load_cache t_file (blank_store c d t_started)")
      case (Inl err)
      with True show ?thesis by (simp add: constructor_def)
    next
      case (Inr s1)
      from aborts [OF that True Inr] show ?thesis by blast
    qed
  qed
  have passes: "constructor c d t_started t_file \<noteq> Inl (Error ''ConsistencyCheck: Broken rindex'')"
    if "disk_rindex d = Some rx" "contiguous"
  proof (cases "check_config c")
    case False
    then show ?thesis by (simp add: constructor_def)
  next
    case True
    show ?thesis
    proof (cases "load_cache t_file (blank_store c d t_started)")
      case (Inl err)
      with True load_cache_error [OF Inl] show ?thesis by (simp add: constructor_def)
    next
      case (Inr s1)
      with True that(2) broken [OF loaded [OF that(1) Inr]] show ?thesis
        by (auto simp: constructor_def Let_def split: sum.splits)
    qed
  qed
  from iff broken aborts some_error passes show ?thesis by blast
qed


lemmas eval_keys = own_keys_def is_array_index_def is_digit_def is_radix_digit_def digit_value_def
  radix_value_def digits_of.simps digit_char_def js_parseInt_def js_whitespace_def

theorem rindex_sum_check_witness:
  "constructor default_config (empty_disk\<lparr>disk_rindex := Some [(''0'', ''a''), (''2'', ''b'')]\<rparr>)
       1700000000000 1700000000001
     = Inl (Error ''ConsistencyCheck: Broken rindex'')
   \<and> rindex_healthy (loaded_example [(''1'', ''b''), (''0'', ''a'')])
   \<and> consistency_checks (loaded_example [(''1'', ''b''), (''0'', ''a'')])
       \<noteq> Inl (Error ''ConsistencyCheck: Broken rindex'')
   \<and> constructor default_config (empty_disk\<lparr>disk_rindex := Some [(''1'', ''b''), (''0'', ''a'')]\<rparr>)
       1700000000000 1700000000001
     \<noteq> Inl (Error ''ConsistencyCheck: Broken rindex'')"
proof -
  let ?good = "[(''1'', ''b''), (''0'', ''a'')]"
  let ?bad = "[(''0'', ''a''), (''2'', ''b'')]"
  let ?d = "empty_disk\<lparr>disk_rindex := Some ?bad\<rparr>"
  let ?dg = "empty_disk\<lparr>disk_rindex := Some ?good\<rparr>"
  have good_keys: "own_keys ?good = [''0'', ''1'']" and bad_keys: "own_keys ?bad = [''0'', ''2'']"
    by (simp_all add: eval_keys)
  have p0: "js_parseInt ''0'' = Some 0" and p1: "js_parseInt ''1'' = Some 1"
    and p2: "js_parseInt ''2'' = Some 2"
    by (simp_all add: eval_keys)
  have seg: "{0..<2::int} = {0, 1}" by auto
  have ne: "{0, 2} \<noteq> {0, 1::int}"
  proof
    assume "{0, 2} = {0, 1::int}"
    then have "(2::int) \<in> {0, 1}" by blast
    then show False by simp
  qed
  have config: "check_config default_config"
    by (simp add: check_config_def default_config_def)
  have loads: "\<exists>s1. load_cache 1700000000001 (blank_store default_config ?d 1700000000000) = Inr s1"
    by (simp add: load_cache_def getFiles_def blank_store_def empty_disk_def)
  have rx: "disk_rindex ?d = Some ?bad" "disk_rindex ?dg = Some ?good"
    "rindex (loaded_example ?good) = ?good"
    by (simp_all add: loaded_example_def)
  have b1: "1 \<le> length (own_keys ?bad)"
    and b2: "\<forall>k\<in>set (own_keys ?bad). \<exists>v\<ge>0. js_parseInt k = Some v"
    and b3: "distinct (map js_parseInt (own_keys ?bad))"
    by (simp_all add: bad_keys p0 p2)
  have g1: "1 \<le> length (own_keys ?good)"
    and g2: "\<forall>k\<in>set (own_keys ?good). \<exists>v\<ge>0. js_parseInt k = Some v"
    and g3: "distinct (map js_parseInt (own_keys ?good))"
    by (simp_all add: good_keys p0 p1)
  have nc: "(\<lambda>k. the (js_parseInt k)) ` set (own_keys ?bad) \<noteq> {0..<int (length (own_keys ?bad))}"
    by (simp add: bad_keys p0 p2 seg ne)
  have co: "(\<lambda>k. the (js_parseInt k)) ` set (own_keys ?good) = {0..<int (length (own_keys ?good))}"
    by (simp add: good_keys p0 p1 seg insert_commute)
  note bad = rindex_sum_check_iff_contiguous [OF b1 b2 b3, of ?d default_config 1700000000000 1700000000001]
  note good = rindex_sum_check_iff_contiguous [OF g1 g2 g3, of ?dg default_config 1700000000000 1700000000001]
  from bad rx(1) nc config loads
  have 1: "constructor default_config ?d 1700000000000 1700000000001
             = Inl (Error ''ConsistencyCheck: Broken rindex'')"
    by blast
  from good rx(3) co
  have 2: "rindex_healthy (loaded_example ?good)"
    and 3: "consistency_checks (loaded_example ?good) \<noteq> Inl (Error ''ConsistencyCheck: Broken rindex'')"
    by blast+
  from good rx(2) co
  have 4: "constructor default_config ?dg 1700000000000 1700000000001
             \<noteq> Inl (Error ''ConsistencyCheck: Broken rindex'')"
    by blast
  from 1 2 3 4 show ?thesis by blast
qed


section \<open>Checkpoint and rotation\<close>

lemma flush_fields [simp]:
  "cfg (snd (flush s)) = cfg s" "cache (snd (flush s)) = cache s"
  "cache_file_name (snd (flush s)) = cache_file_name s" "started (snd (flush s)) = started s"
  "index (snd (flush s)) = index s" "rindex (snd (flush s)) = rindex s"
  "meta_archive (snd (flush s)) = meta_archive s"
  "memory_cache_read_counter (snd (flush s)) = memory_cache_read_counter s"
  "memory_cache_write_counter (snd (flush s)) = memory_cache_write_counter s"
  "file_cache_read_counter (snd (flush s)) = file_cache_read_counter s"
  "file_cache_write_counter (snd (flush s)) = file_cache_write_counter s"
  "persist_lock (snd (flush s)) = persist_lock s"
  by (simp_all add: flush_def Let_def)

lemma flush_text_lock [simp]: "fst (flush (s\<lparr>persist_lock := b\<rparr>)) = fst (flush s)"
  by (simp add: flush_def Let_def)

lemma flush_dir:
  "dir (snd (flush s)) = (if cache s \<noteq> [] then write_json (cache_file_name s) (cache s) (dir s) else dir s)"
  by (simp add: flush_def Let_def cache_size_def)









section \<open>Bounds of a range query\<close>




section \<open>Time ranges\<close>

lemma nth_num_Some: "0 \<le> k \<Longrightarrow> k < int (length xs) \<Longrightarrow> nth_num xs k = Some (xs ! nat k)"
  by (simp add: nth_num_def)

text \<open>
  The loop invariant of the search for a key that does not occur: everything left of
  \<open>start\<close> is smaller than the key, everything right of \<open>en\<close> is larger.
\<close>

lemma binary_search_loop_absent:
  assumes "sorted xs" and "key \<notin> set xs"
    and "0 \<le> start" and "en < int (length xs)" and "start \<le> en + 1"
    and "\<forall>j<nat start. xs ! j < key"
    and "\<forall>j. nat (en + 1) \<le> j \<and> j < length xs \<longrightarrow> key < xs ! j"
  shows "\<exists>p. binary_search_loop xs key start en = (int p, int p - 1) \<and> p \<le> length xs
             \<and> (\<forall>j<p. xs ! j < key) \<and> (\<forall>j. p \<le> j \<and> j < length xs \<longrightarrow> key < xs ! j)"
  using assms
proof (induction xs key start en rule: binary_search_loop.induct)
  case (1 xs key start en)
  show ?case
  proof (cases "start \<le> en")
    case False
    with "1.prems" have eq: "start = en + 1" by simp
    have "binary_search_loop xs key start en = (start, en)"
      using False by (subst binary_search_loop.simps) simp
    moreover have "int (nat start) = start" using "1.prems"(3) by simp
    ultimately show ?thesis
      using "1.prems" eq
      by (intro exI [of _ "nat start"]) (auto simp: nat_le_iff)
  next
    case True
    define middle where "middle = (start + en) div 2"
    have mid: "start \<le> middle" "middle \<le> en" using True by (auto simp: middle_def)
    then have inr: "0 \<le> middle" "middle < int (length xs)" using "1.prems" by auto
    have rd: "nth_num xs middle = Some (xs ! nat middle)"
      using inr by (rule nth_num_Some)
    have ne: "xs ! nat middle \<noteq> key"
      using "1.prems"(2) inr by (metis nat_less_iff nth_mem)
    show ?thesis
    proof (cases "xs ! nat middle < key")
      case less: True
      have step: "binary_search_loop xs key start en = binary_search_loop xs key (middle + 1) en"
        using True rd ne less by (subst binary_search_loop.simps) (simp add: middle_def Let_def)
      have below: "\<forall>j<nat (middle + 1). xs ! j < key"
      proof (intro allI impI)
        fix j assume "j < nat (middle + 1)"
        then have "j \<le> nat middle" using inr by linarith
        moreover have "nat middle < length xs" using inr by linarith
        ultimately have "xs ! j \<le> xs ! nat middle"
          using "1.prems"(1) by (simp add: sorted_nth_mono)
        with less show "xs ! j < key" by simp
      qed
      have "\<exists>p. binary_search_loop xs key (middle + 1) en = (int p, int p - 1) \<and> p \<le> length xs
             \<and> (\<forall>j<p. xs ! j < key) \<and> (\<forall>j. p \<le> j \<and> j < length xs \<longrightarrow> key < xs ! j)"
        using True rd ne less "1.prems" mid inr below
        by (intro "1.IH"(2) [OF True middle_def rd]) auto
      with step show ?thesis by simp
    next
      case False
      with ne have greater: "key < xs ! nat middle" by simp
      have step: "binary_search_loop xs key start en = binary_search_loop xs key start (middle - 1)"
        using True rd ne False by (subst binary_search_loop.simps) (simp add: middle_def Let_def)
      have above: "\<forall>j. nat (middle - 1 + 1) \<le> j \<and> j < length xs \<longrightarrow> key < xs ! j"
      proof (intro allI impI)
        fix j assume "nat (middle - 1 + 1) \<le> j \<and> j < length xs"
        then have "nat middle \<le> j" "j < length xs" by simp_all
        then have "xs ! nat middle \<le> xs ! j"
          using "1.prems"(1) by (simp add: sorted_nth_mono)
        with greater show "key < xs ! j" by simp
      qed
      have "\<exists>p. binary_search_loop xs key start (middle - 1) = (int p, int p - 1) \<and> p \<le> length xs
             \<and> (\<forall>j<p. xs ! j < key) \<and> (\<forall>j. p \<le> j \<and> j < length xs \<longrightarrow> key < xs ! j)"
        using True rd ne False "1.prems" mid inr above
        by (intro "1.IH"(3) [OF True middle_def rd]) auto
      with step show ?thesis by simp
    qed
  qed
qed

lemma takeWhile_length_split:
  assumes "p \<le> length xs" and "\<forall>j<p. P (xs ! j)" and "\<forall>j. p \<le> j \<and> j < length xs \<longrightarrow> \<not> P (xs ! j)"
  shows "length (takeWhile P xs) = p"
proof (cases "p < length xs")
  case True
  then have "takeWhile P xs = take p xs"
    using assms by (intro takeWhile_eq_take_P_nth) auto
  with True show ?thesis by simp
next
  case False
  with assms have "p = length xs" by simp
  with assms(2) have "\<forall>x\<in>set xs. P x" by (auto simp: in_set_conv_nth)
  then have tw: "takeWhile P xs = xs" by simp
  show ?thesis by (simp only: tw \<open>p = length xs\<close>)
qed

lemma binary_search_absent:
  assumes "sorted xs" and "key \<notin> set xs"
  shows "snd (binary_search xs key) + 1 = insertion_point xs key"
proof -
  have "\<exists>p. binary_search_loop xs key 0 (int (length xs) - 1) = (int p, int p - 1) \<and> p \<le> length xs
             \<and> (\<forall>j<p. xs ! j < key) \<and> (\<forall>j. p \<le> j \<and> j < length xs \<longrightarrow> key < xs ! j)"
    using assms by (intro binary_search_loop_absent) auto
  then obtain p where p: "binary_search_loop xs key 0 (int (length xs) - 1) = (int p, int p - 1)"
    "p \<le> length xs" "\<forall>j<p. xs ! j < key" "\<forall>j. p \<le> j \<and> j < length xs \<longrightarrow> key < xs ! j"
    by blast
  have "length (takeWhile (\<lambda>x. x < key) xs) = p"
    using p(2,3,4) by (intro takeWhile_length_split) auto
  with p(1) show ?thesis
    by (simp add: binary_search_def insertion_point_def)
qed

lemma own_entries_plain:
  assumes "distinct (map fst obj)" and "\<forall>k\<in>fst ` set obj. \<not> is_array_index k"
  shows "own_entries obj = obj"
proof -
  have "filter is_array_index (map fst obj) = []"
    using assms(2) by (auto simp: filter_empty_conv)
  moreover have "filter (\<lambda>k. \<not> is_array_index k) (map fst obj) = map fst obj"
    using assms(2) by (auto simp: filter_id_conv)
  ultimately have keys: "own_keys obj = map fst obj"
    by (simp add: own_keys_def)
  have "map (\<lambda>p. (fst p, the (map_of obj (fst p)))) obj = obj"
  proof (rule map_idI)
    fix p assume "p \<in> set obj"
    then have "(fst p, snd p) \<in> set obj" by simp
    then have "map_of obj (fst p) = Some (snd p)"
      by (simp only: map_of_eq_Some_iff [OF assms(1)])
    then show "(fst p, the (map_of obj (fst p))) = p" by simp
  qed
  then show ?thesis
    by (simp add: own_entries_def keys comp_def)
qed

text \<open>
  Away from ties. The search runs over the \<open>created_at\<close> values in the order in which
  \<open>for (key in this.index)\<close> lists the entries; that is the order of the sequence
  numbers when no key is an array-index name. If this sequence is ascending and a
  boundary does not occur in it, the position computed for the boundary is its
  insertion point, and the time range is answered as the position range between the
  two positions is.
\<close>

lemma getn_time_range_delegates:
  assumes "\<not> persist_lock s" and "index_range \<noteq> RInvalid"
    and "sorted (insertion_times s)"
    and "t0 \<notin> set (insertion_times s)" and "t1 \<notin> set (insertion_times s)"
  shows "binary_search_index s t0 + 1 = insertion_point (insertion_times s) t0
         \<and> binary_search_index s t1 + 1 = insertion_point (insertion_times s) t1
         \<and> getn index_range (RPair t0 t1) s
             = getn (RPair (insertion_point (insertion_times s) t0)
                           (insertion_point (insertion_times s) t1)) RNull s
         \<and> (distinct (map fst (index s)) \<and> (\<forall>k\<in>fst ` set (index s). \<not> is_array_index k)
              \<longrightarrow> insertion_times s = map (\<lambda>kv. entry_c (snd kv)) (index s))"
proof -
  have p0: "binary_search_index s t0 + 1 = insertion_point (insertion_times s) t0"
    unfolding binary_search_index_def using assms(3,4) by (rule binary_search_absent)
  have p1: "binary_search_index s t1 + 1 = insertion_point (insertion_times s) t1"
    unfolding binary_search_index_def using assms(3,5) by (rule binary_search_absent)
  have "getn index_range (RPair t0 t1) s
          = getn (RPair (binary_search_index s t0 + 1) (binary_search_index s t1 + 1)) RNull s"
    using assms(1,2) by (simp add: getn_def)
  then show ?thesis
    by (auto simp: p0 p1 insertion_times_def own_entries_plain)
qed

lemma store3_eq:
  "store3 = \<lparr>cfg = default_config, cache = [JStr ''v3'', JStr ''v2'', JStr ''v1''],
      cache_file_name = ''1700000000001.json'', started = 1700000000000,
      index = [(''alpha'', \<lparr>entry_i = 0, entry_f = ''1700000000001.json'', entry_c = 1700000000002\<rparr>),
               (''beta'', \<lparr>entry_i = 1, entry_f = ''1700000000001.json'', entry_c = 1700000000003\<rparr>),
               (''gamma'', \<lparr>entry_i = 2, entry_f = ''1700000000001.json'', entry_c = 1700000000004\<rparr>)],
      rindex = [(''0'', ''alpha''), (''1'', ''beta''), (''2'', ''gamma'')], meta_archive = [],
      dir = [(''1700000000001.json'', [])],
      index_json = None, rindex_json = None, meta_json = None,
      memory_cache_read_counter = 0, memory_cache_write_counter = 3,
      file_cache_read_counter = 0, file_cache_write_counter = 0,
      persist_lock = False\<rparr>"
  by (simp add: store3_def store0_def set_valid_def get_property_def object_prototype_names_def
      empty_store_def num_to_string_def digits_of.simps digit_char_def)

lemma store3_times: "insertion_times store3 = [1700000000002, 1700000000003, 1700000000004]"
  by (simp add: store3_eq insertion_times_def own_entries_def own_keys_def is_array_index_def
      is_digit_def is_radix_digit_def digit_value_def)

lemma getn_time_range_example:
  "getn RNull (RPair 1700000000000 1700000000005) store3 = getn (RPair 0 3) RNull store3"
proof -
  have ip: "insertion_point (insertion_times store3) 1700000000000 = 0"
    "insertion_point (insertion_times store3) 1700000000005 = 3"
    by (simp_all add: store3_times insertion_point_def)
  have "\<not> persist_lock store3" by (simp add: store3_eq)
  then show ?thesis
    using getn_time_range_delegates [of store3 RNull 1700000000000 1700000000005]
    by (simp add: ip) (simp add: store3_times)
qed

text \<open>
  Claim C7 on a tie. The three \<open>created_at\<close> values of \<open>store3\<close> are ascending; the
  boundaries \<open>1700000000002\<close>, \<open>1700000000003\<close> and \<open>1700000000004\<close> occur at
  positions 0, 1 and 2, their first matching positions. On a match \<open>_binary_search\<close>
  leaves its loop (where a \<open>return middle\<close> is commented out) and
  \<open>_binary_search_index\<close> returns the upper bound as it stands: the code computes
  the positions 1, 3 and 3. The range from the second to the third time stamp is
  empty, where the positions 1 and 2 select \<open>v2\<close>; the range from the first to the
  third is \<open>v2, v1\<close>, where the positions 0 and 2 select \<open>v3, v2\<close>.
\<close>

theorem getn_time_range_tie:
  "insertion_times store3 = [1700000000002, 1700000000003, 1700000000004]
   \<and> insertion_point (insertion_times store3) 1700000000002 = 0
   \<and> insertion_point (insertion_times store3) 1700000000003 = 1
   \<and> insertion_point (insertion_times store3) 1700000000004 = 2
   \<and> binary_search_index store3 1700000000002 + 1 = 1
   \<and> binary_search_index store3 1700000000003 + 1 = 3
   \<and> binary_search_index store3 1700000000004 + 1 = 3
   \<and> map_option fst (getn RNull (RPair 1700000000003 1700000000004) store3) = Some (Inr [])
   \<and> map_option fst (getn (RPair 1 2) RNull store3) = Some (Inr [JStr ''v2''])
   \<and> map_option fst (getn RNull (RPair 1700000000002 1700000000004) store3)
       = Some (Inr [JStr ''v2'', JStr ''v1''])
   \<and> map_option fst (getn (RPair 0 2) RNull store3) = Some (Inr [JStr ''v3'', JStr ''v2''])"
proof -
  have bs: "binary_search_index store3 1700000000002 = 0"
    "binary_search_index store3 1700000000003 = 2" "binary_search_index store3 1700000000004 = 2"
    by (simp_all add: binary_search_index_def binary_search_def store3_times
        binary_search_loop.simps nth_num_def)
  have "\<not> persist_lock store3" "index_size store3 = 3" "cache store3 = [JStr ''v3'', JStr ''v2'', JStr ''v1'']"
    by (simp_all add: store3_eq)
  then show ?thesis
    by (simp add: bs store3_times insertion_point_def getn_def getn_from_def slice_def)
qed

section \<open>\<open>filter\<close>\<close>

lemma eval_each_append:
  "eval_each ev cb (xs @ ys) sc =
     (case eval_each ev cb xs sc of Inl err \<Rightarrow> Inl err | Inr sc' \<Rightarrow> eval_each ev cb ys sc')"
  by (induction xs arbitrary: sc) (auto split: sum.splits)

lemma read_json_counters [simp]:
  "read_json (s\<lparr>file_cache_read_counter := n\<rparr>) = read_json s"
  "read_json (s\<lparr>memory_cache_read_counter := n\<rparr>) = read_json s"
  by (auto simp: read_json_def fun_eq_iff)

lemma filter_files_result:
  "fst (filter_files ev cb limit files num sc s) =
     (case eval_each ev cb (concat (visited_segments limit num (map (read_json s) files))) sc of
        Inl err \<Rightarrow> JStr err
      | Inr sc' \<Rightarrow> JObj [(''results'', fst sc'), (''obj'', snd sc')])"
proof (induction files arbitrary: num sc s)
  case Nil
  show ?case by simp
next
  case (Cons name files)
  show ?case
    by (simp add: Let_def eval_each_append Cons.IH split: sum.splits)
qed

lemma getFiles_sorted:
  assumes "getFiles b s = Inr files"
  shows "sorted_wrt (\<lambda>a c. file_time_num c \<le> file_time_num a) files"
proof -
  from assms obtain filtered where "files = sort_key (\<lambda>file. - int (file_time_num file)) filtered"
    by (auto simp: getFiles_def Let_def split: if_splits)
  then have "sorted (map (\<lambda>file. - int (file_time_num file)) files)"
    by simp
  then show ?thesis
    by (simp add: sorted_map sorted_wrt_iff_nth_less) 
qed

lemma getFiles_set:
  assumes "getFiles False s = Inr files"
  shows "set files = {file \<in> fst ` set (dir s). sublist (file_prefix_cfg (cfg s)) file}"
proof -
  from assms have "files = sort_key (\<lambda>name. - int (file_time_num name))
                     (filter (sublist (file_prefix_cfg (cfg s))) (map fst (dir s)))"
    by (simp add: getFiles_def Let_def split: if_splits)
  then have "set files = set (filter (sublist (file_prefix_cfg (cfg s))) (map fst (dir s)))"
    by simp
  then show ?thesis by auto
qed

text \<open>
  Claim C9, as amended. \<open>files\<close> are the sealed segments as \<open>_getFiles\<close> lists them:
  the names in the directory that contain the prefix, newest first. \<open>filter\<close> runs the
  caller's text through \<open>eval\<close> for every truthy item of the traversal, cache first,
  then segment by segment, and stops after the segment at which the item count reaches
  the limit. Its result is the message of the first error the text threw; otherwise
  the array \<open>results\<close> when the cache alone reached the limit, and the object
  \<open>{results, obj}\<close> when it did not.
\<close>

theorem filter_evaluates_text_over_traversal:
  assumes "getFiles False s = Inr files"
  shows "fst (filter_cb ev callback_str limit s) =
           (case eval_each ev callback_str (visited limit s files) (JArr [], JObj []) of
              Inl err \<Rightarrow> Inr (JStr err)
            | Inr sc \<Rightarrow>
                if limit_reached limit (int (length (cache s))) then Inr (fst sc)
                else Inr (JObj [(''results'', fst sc), (''obj'', snd sc)]))
         \<and> sorted_wrt (\<lambda>a c. file_time_num c \<le> file_time_num a) files
         \<and> set files = {file \<in> fst ` set (dir s). sublist (file_prefix_cfg (cfg s)) file}"
proof -
  have ff: "fst (filter_files ev callback_str limit files (int (length (cache s))) sc
                  (s\<lparr>memory_cache_read_counter := n\<rparr>)) =
     (case eval_each ev callback_str
             (concat (visited_segments limit (int (length (cache s))) (map (read_json s) files))) sc of
        Inl err \<Rightarrow> JStr err
      | Inr sc' \<Rightarrow> JObj [(''results'', fst sc'), (''obj'', snd sc')])" for sc n
    by (simp add: filter_files_result)
  have "fst (filter_cb ev callback_str limit s) =
           (case eval_each ev callback_str (visited limit s files) (JArr [], JObj []) of
              Inl err \<Rightarrow> Inr (JStr err)
            | Inr sc \<Rightarrow>
                if limit_reached limit (int (length (cache s))) then Inr (fst sc)
                else Inr (JObj [(''results'', fst sc), (''obj'', snd sc)]))"
    using assms
    by (simp add: filter_cb_def visited_def Let_def eval_each_append split_beta ff
             split: sum.splits)
  with getFiles_sorted [OF assms] getFiles_set [OF assms] show ?thesis by simp
qed

lemma store4_eq:
  "store4 = \<lparr>cfg = default_config, cache = [JStr ''v4''],
      cache_file_name = ''1700043200003.json'', started = 1700043200004,
      index = [(''alpha'', \<lparr>entry_i = 0, entry_f = ''1700000000001.json'', entry_c = 1700000000002\<rparr>),
               (''beta'', \<lparr>entry_i = 1, entry_f = ''1700000000001.json'', entry_c = 1700000000003\<rparr>),
               (''gamma'', \<lparr>entry_i = 2, entry_f = ''1700000000001.json'', entry_c = 1700000000004\<rparr>),
               (''delta'', \<lparr>entry_i = 3, entry_f = ''1700043200003.json'', entry_c = 1700043200005\<rparr>)],
      rindex = [(''0'', ''alpha''), (''1'', ''beta''), (''2'', ''gamma''), (''3'', ''delta'')],
      meta_archive = [(''dbjs_1700000000001.json'', 3)],
      dir = [(''dbjs_1700000000001.json'', [JStr ''v3'', JStr ''v2'', JStr ''v1'']),
             (''1700043200003.json'', [])],
      index_json = Some [(''alpha'', \<lparr>entry_i = 0, entry_f = ''1700000000001.json'', entry_c = 1700000000002\<rparr>),
               (''beta'', \<lparr>entry_i = 1, entry_f = ''1700000000001.json'', entry_c = 1700000000003\<rparr>),
               (''gamma'', \<lparr>entry_i = 2, entry_f = ''1700000000001.json'', entry_c = 1700000000004\<rparr>)],
      rindex_json = Some [(''0'', ''alpha''), (''1'', ''beta''), (''2'', ''gamma'')],
      meta_json = Some [(''dbjs_1700000000001.json'', 3)],
      memory_cache_read_counter = 0, memory_cache_write_counter = 4,
      file_cache_read_counter = 0, file_cache_write_counter = 0,
      persist_lock = False\<rparr>"
  by (simp add: store4_def store3_eq persist_def flush_def Let_def cache_size_def default_config_def
      write_json_def file_image_def unserializable_def renameSync_def create_cache_file_def
      set_valid_def get_property_def object_prototype_names_def
      num_to_string_def digits_of.simps digit_char_def)

lemma store4_files: "getFiles False store4 = Inr [''dbjs_1700000000001.json'']"
  by (simp add: store4_eq getFiles_def default_config_def sublist_code)

theorem filter_traversal_witness:
  "fst (filter_cb eval_push_data ''results.push(data)'' (Some 2) store4)
     = Inr (JObj [(''results'', JArr [JStr ''v4'', JStr ''v3'', JStr ''v2'', JStr ''v1'']), (''obj'', JObj [])])
   \<and> fst (filter_cb eval_push_data ''results.push(data)'' (Some 1) store4)
     = Inr (JArr [JStr ''v4''])"
proof -
  have v2: "visited (Some 2) store4 [''dbjs_1700000000001.json''] = [JStr ''v4'', JStr ''v3'', JStr ''v2'', JStr ''v1'']"
    and v1: "visited (Some 1) store4 [''dbjs_1700000000001.json''] = [JStr ''v4'']"
    by (simp_all add: visited_def limit_reached_def read_json_def store4_eq)
  have c: "cache store4 = [JStr ''v4'']" by (simp add: store4_eq)
  show ?thesis
    using filter_evaluates_text_over_traversal [OF store4_files, of eval_push_data "''results.push(data)''" "Some 2"]
      filter_evaluates_text_over_traversal [OF store4_files, of eval_push_data "''results.push(data)''" "Some 1"]
    by (simp add: v1 v2 c eval_push_data_def limit_reached_def)
qed

text \<open>
  The claim as stated takes a predicate on values and returns the values it selects.
  The code takes a text and evaluates it: with the text \<open>results.push(0)\<close> the result
  holds three zeros, and zero is not among the values the traversal visits.
\<close>

theorem filter_result_not_a_selection:
  "fst (filter_cb eval_push_zero ''results.push(0)'' (Some 1000) store3)
     = Inr (JObj [(''results'', JArr [JNum 0, JNum 0, JNum 0]), (''obj'', JObj [])])
   \<and> visited (Some 1000) store3 [] = [JStr ''v3'', JStr ''v2'', JStr ''v1'']
   \<and> getFiles False store3 = Inr []"
  by (simp add: filter_cb_def getFiles_def store3_eq default_config_def sublist_code
      eval_push_zero_def limit_reached_def visited_def)

section \<open>Numbers as text\<close>

lemma radix_value_snoc:
  "radix_value r (ds @ [ch]) = radix_value r ds * r + (case digit_value ch of None \<Rightarrow> 0 | Some d \<Rightarrow> d)"
  by (simp add: radix_value_def)

lemma radix_value_digits_of: "radix_value 10 (digits_of n) = n"
proof (induction n rule: digits_of.induct)
  case (1 n)
  show ?case
  proof (cases "n < 10")
    case True
    then show ?thesis
      by (subst digits_of.simps) (simp add: radix_value_def digit_value_digit_char)
  next
    case False
    then show ?thesis
      using 1 by (subst digits_of.simps) (simp add: radix_value_snoc digit_value_digit_char)
  qed
qed

lemma digits_of_inject: "digits_of m = digits_of n \<Longrightarrow> m = n"
  by (metis radix_value_digits_of)

lemma digits_of_nonempty: "digits_of n \<noteq> []"
  by (subst digits_of.simps) simp

lemma not_digit_minus: "\<not> is_digit (CHR ''-'')"
  by (simp add: is_digit_def is_radix_digit_def digit_value_def)


lemma minus_not_in_digits: "CHR ''-'' \<notin> set (digits_of n)"
  using digits_of_all_digits [of n] not_digit_minus by (auto simp: list_all_iff)


lemma num_to_string_inject: "num_to_string a = num_to_string b \<Longrightarrow> a = b"
proof -
  assume eq: "num_to_string a = num_to_string b"
  have hd: "hd (digits_of n) \<noteq> CHR ''-''" for n
    using minus_not_in_digits [of n] digits_of_nonempty [of n] by (metis hd_in_set)
  show "a = b"
  proof (cases "a < 0"; cases "b < 0")
    assume "a < 0" "b < 0"
    with eq have "nat (- a) = nat (- b)"
      by (auto simp: num_to_string_def dest: digits_of_inject)
    with \<open>a < 0\<close> \<open>b < 0\<close> show ?thesis by simp
  next
    assume "a < 0" "\<not> b < 0"
    with eq have "CHR ''-'' # digits_of (nat (- a)) = digits_of (nat b)"
      by (simp add: num_to_string_def)
    then have "hd (digits_of (nat b)) = CHR ''-''" by (metis list.sel(1))
    with hd show ?thesis by blast
  next
    assume "\<not> a < 0" "b < 0"
    with eq have "digits_of (nat a) = CHR ''-'' # digits_of (nat (- b))"
      by (simp add: num_to_string_def)
    then have "hd (digits_of (nat a)) = CHR ''-''" by (metis list.sel(1))
    with hd show ?thesis by blast
  next
    assume "\<not> a < 0" "\<not> b < 0"
    with eq have "nat a = nat b"
      by (auto simp: num_to_string_def dest: digits_of_inject)
    with \<open>\<not> a < 0\<close> \<open>\<not> b < 0\<close> show ?thesis by simp
  qed
qed



lemma segment_file_inject: "segment_file a = segment_file b \<Longrightarrow> a = b"
  by (simp add: segment_file_def num_to_string_inject)




section \<open>The checkpoint, case by case\<close>

lemma persist_cases:
  "persist t_delta t_file t_started s =
     (if rotation_due t_delta s
      then s\<lparr>cache := [], cache_file_name := segment_file t_file, started := t_started,
             meta_archive := AList.update (file_prefix_cfg (cfg s) @ cache_file_name s)
                               (int (length (cache s))) (meta_archive s),
             dir := write_json (segment_file t_file) []
                      (renameSync (cache_file_name s) (file_prefix_cfg (cfg s) @ cache_file_name s)
                         (write_json (cache_file_name s) (cache s) (dir s))),
             index_json := Some (index s), rindex_json := Some (rindex s),
             meta_json := Some (AList.update (file_prefix_cfg (cfg s) @ cache_file_name s)
                               (int (length (cache s))) (meta_archive s)),
             persist_lock := False\<rparr>
      else s\<lparr>dir := (if cache s \<noteq> [] then write_json (cache_file_name s) (cache s) (dir s) else dir s),
             index_json := Some (index s), rindex_json := Some (rindex s),
             meta_json := Some (meta_archive s), persist_lock := False\<rparr>)"
  by (simp add: persist_def rotation_due_def flush_def Let_def cache_size_def
      create_cache_file_def segment_file_def)





section \<open>Operations keep the invariant\<close>

lemma update_fresh: "k \<notin> fst ` set al \<Longrightarrow> AList.update k v al = al @ [(k, v)]"
  by (induction al) auto

lemma get_property_Missing:
  "get_property obj k = Missing \<longleftrightarrow> k \<notin> fst ` set obj \<and> k \<notin> set object_prototype_names"
  by (force simp: get_property_def map_of_eq_None_iff split: option.splits dest: map_of_SomeD)


lemma same_frame_refl [simp]: "same_frame s s"
  by (simp add: same_frame_def)

lemma index_inv_frame:
  assumes "index_inv t segs s" and "same_frame s s'"
  shows "index_inv t segs s'"
  using assms by (simp add: index_inv_def same_frame_def)

lemma update_file_frame: "same_frame s (update_file key val s)"
  by (auto simp: update_file_def same_frame_def Let_def split: property.splits option.splits)

text \<open>What \<open>set\<close> does to a key that \<open>this.index[key]\<close> finds: the index stays.\<close>

lemma set_valid_existing:
  assumes "get_property (index s) key \<noteq> Missing"
  shows "same_frame s (set_valid now key val s)"
proof (cases "get_memory_cache_index s key \<noteq> - 1")
  case True
  let ?ci = "get_memory_cache_index s key"
  have "?ci < int (length (cache s))"
    using True by (auto simp: get_memory_cache_index_def Let_def cache_size_def split: property.splits if_splits)
  then show ?thesis
    using assms True
    by (auto simp: set_valid_def Let_def same_frame_def array_set_def split: property.splits)
next
  case False
  then have "set_valid now key val s = update_file key val s"
    using assms by (auto simp: set_valid_def Let_def split: property.splits)
  then show ?thesis by (simp add: update_file_frame)
qed

lemma set_valid_new:
  assumes "get_property (index s) key = Missing"
  shows "set_valid now key val s =
           s\<lparr>cache := val # cache s,
             memory_cache_write_counter := memory_cache_write_counter s + 1,
             index := index s @ [(key, \<lparr>entry_i = int (length (index s)), entry_f = cache_file_name s, entry_c = now\<rparr>)],
             rindex := AList.update (num_to_string (int (length (index s)))) key (rindex s)\<rparr>"
proof -
  from assms have "key \<notin> fst ` set (index s)"
    by (simp add: get_property_Missing)
  then show ?thesis
    by (simp add: set_valid_def assms Let_def update_fresh)
qed

lemma index_inv_set_valid:
  assumes inv: "index_inv t segs s"
  shows "index_inv t segs (set_valid now key val s)"
proof (cases "get_property (index s) key = Missing")
  case False
  then show ?thesis
    using inv by (intro index_inv_frame [OF inv] set_valid_existing)
next
  case True
  let ?n = "length (index s)"
  have fresh_key: "key \<notin> fst ` set (index s)" "key \<notin> set object_prototype_names"
    using True by (simp_all add: get_property_Missing)
  have rx: "rindex s = map (\<lambda>j. (num_to_string (int j), fst (index s ! j))) [0..<?n]"
    using inv by (simp add: index_inv_def)
  have "num_to_string (int ?n) \<notin> fst ` set (rindex s)"
  proof
    assume "num_to_string (int ?n) \<in> fst ` set (rindex s)"
    then obtain j where "j < ?n" "num_to_string (int ?n) = num_to_string (int j)"
      by (subst (asm) rx) auto
    then show False by (auto dest: num_to_string_inject)
  qed
  then have rx': "AList.update (num_to_string (int ?n)) key (rindex s) = rindex s @ [(num_to_string (int ?n), key)]"
    by (rule update_fresh)
  have nth: "map (\<lambda>j. (num_to_string (int j), fst ((index s @ [(key, e)]) ! j))) [0..<?n]
             = map (\<lambda>j. (num_to_string (int j), fst (index s ! j))) [0..<?n]" for e
    by (rule map_cong) (auto simp: nth_append)
  show ?thesis
    using inv fresh_key
    unfolding set_valid_new [OF True] rx'
    by (simp add: index_inv_def nth replicate_append_same)
qed

lemma archive_name_inject: "archive_name c a = archive_name c b \<Longrightarrow> a = b"
  by (simp add: archive_name_def segment_file_inject)

lemma index_inv_persist:
  assumes inv: "index_inv t segs s" and later: "t < t_file"
    and width: "length (num_to_string t_file) = length (num_to_string t)"
  shows "index_inv (if rotation_due t_delta s then t_file else t)
           (if rotation_due t_delta s then segs @ [(t, length (cache s))] else segs)
           (persist t_delta t_file t_started s)"
proof (cases "rotation_due t_delta s")
  case False
  with inv show ?thesis
    by (simp add: persist_cases index_inv_def)
next
  case True
  then have nonempty: "cache s \<noteq> []" by (simp add: rotation_due_def)
  have cfn: "cache_file_name s = segment_file t"
    and meta: "meta_archive s = map (\<lambda>seg. (archive_name (cfg s) (fst seg), int (snd seg))) segs"
    and old: "\<forall>seg\<in>set segs. fst seg < t \<and> length (num_to_string (fst seg)) = length (num_to_string t) \<and> 0 < snd seg"
    using inv by (simp_all add: index_inv_def)
  have "archive_name (cfg s) t \<notin> fst ` set (meta_archive s)"
  proof
    assume "archive_name (cfg s) t \<in> fst ` set (meta_archive s)"
    then obtain seg where "seg \<in> set segs" "archive_name (cfg s) t = archive_name (cfg s) (fst seg)"
      by (subst (asm) meta) auto
    with old show False by (auto dest: archive_name_inject)
  qed
  then have meta': "AList.update (file_prefix_cfg (cfg s) @ segment_file t) (int (length (cache s)))
                      (map (\<lambda>seg. (archive_name (cfg s) (fst seg), int (snd seg))) segs)
                    = map (\<lambda>seg. (archive_name (cfg s) (fst seg), int (snd seg))) segs
                      @ [(archive_name (cfg s) t, int (length (cache s)))]"
    by (simp add: meta archive_name_def update_fresh)
  show ?thesis
    using inv True nonempty later width old
    by (simp add: persist_cases index_inv_def meta' sorted_wrt_append) auto
qed

lemma persist_cfg [simp]: "cfg (persist t_delta t_file t_started s) = cfg s"
  by (simp add: persist_cases)

lemma get_frame:
  assumes "\<not> persist_lock s"
  shows "\<exists>r s'. get key s = Some (r, s') \<and> same_frame s s' \<and> cache s' = cache s \<and> dir s' = dir s"
  using assms
  by (auto simp: get_def load_from_file_def same_frame_def Let_def
           split: jsval.splits property.splits option.splits)

lemma getn_from_frame:
  "same_frame s (snd (getn_from a b s)) \<and> cache (snd (getn_from a b s)) = cache s
   \<and> dir (snd (getn_from a b s)) = dir s"
  by (auto simp: getn_from_def same_frame_def Let_def
           split: option.splits property.splits sum.splits)

lemma getn_frame:
  assumes "\<not> persist_lock s"
  shows "\<exists>r s'. getn index_range time_range s = Some (r, s') \<and> same_frame s s'
                 \<and> cache s' = cache s \<and> dir s' = dir s"
proof -
  have "\<exists>a b. getn index_range time_range s = Some (getn_from a b s)
        \<or> getn index_range time_range s = Some (Inr [], s)"
    using assms by (auto simp: getn_def split: range_arg.splits)
  then show ?thesis
    using getn_from_frame by (metis prod.collapse same_frame_refl)
qed

lemma set_kv_returns:
  assumes "\<not> persist_lock s"
  shows "set_kv now key val s =
           (case key of
              JStr k \<Rightarrow>
                if check_key s key = 1 \<and> check_value s val = 1 then Some (True, set_valid now k val s)
                else Some (False, s)
            | _ \<Rightarrow> Some (False, s))"
  using assms by (auto simp: set_kv_def check_key_def split: jsval.splits)

lemma index_inv_step:
  assumes inv: "index_inv t segs s" and timed: "well_timed tc [op1]" and le: "t \<le> tc"
    and width: "length (num_to_string t) = length (num_to_string tc)"
  shows "\<exists>s' t' segs'. step op1 s = Some s' \<and> index_inv t' segs' s' \<and> cfg s' = cfg s
           \<and> (case op1 of Persist t_delta t_file t_started \<Rightarrow> t' \<le> t_file
                  \<and> length (num_to_string t') = length (num_to_string t_file)
               | _ \<Rightarrow> t' = t)"
proof -
  have unlocked: "\<not> persist_lock s" using inv by (simp add: index_inv_def)
  show ?thesis
  proof (cases op1)
    case (Put now key val)
    have "index_inv t segs (set_valid now k val s)" for k
      using inv by (rule index_inv_set_valid)
    moreover have "cfg (set_valid now k val s) = cfg s" for k
      using set_valid_existing [of s k now val] set_valid_new [of s k now val]
      by (cases "get_property (index s) k = Missing") (auto simp: same_frame_def)
    ultimately show ?thesis
      using inv by (auto simp: Put set_kv_returns [OF unlocked] split: jsval.splits)
  next
    case (Get key)
    from get_frame [OF unlocked, of key] obtain r s' where
      "get key s = Some (r, s')" "same_frame s s'" by blast
    then show ?thesis
      using index_inv_frame [OF inv] by (auto simp: Get same_frame_def)
  next
    case (GetN index_range time_range)
    from getn_frame [OF unlocked, of index_range time_range] obtain r s' where
      "getn index_range time_range s = Some (r, s')" "same_frame s s'" by blast
    then show ?thesis
      using index_inv_frame [OF inv] by (auto simp: GetN same_frame_def)
  next
    case (Persist t_delta t_file t_started)
    with timed le width have "t < t_file" "length (num_to_string t_file) = length (num_to_string t)"
      by simp_all
    from index_inv_persist [OF inv this, of t_delta t_started]
    have "index_inv (if rotation_due t_delta s then t_file else t)
           (if rotation_due t_delta s then segs @ [(t, length (cache s))] else segs)
           (persist t_delta t_file t_started s)" .
    moreover have "(if rotation_due t_delta s then t_file else t) \<le> t_file"
      "length (num_to_string (if rotation_due t_delta s then t_file else t)) = length (num_to_string t_file)"
      using \<open>t < t_file\<close> \<open>length (num_to_string t_file) = length (num_to_string t)\<close> by simp_all
    ultimately show ?thesis
      unfolding Persist
      by (intro exI [of _ "persist t_delta t_file t_started s"]
                exI [of _ "if rotation_due t_delta s then t_file else t"]
                exI [of _ "if rotation_due t_delta s then segs @ [(t, length (cache s))] else segs"])
         simp
  qed
qed

lemma index_inv_run:
  assumes "index_inv t segs s" and "well_timed tc ops" and "t \<le> tc"
    and "length (num_to_string t) = length (num_to_string tc)"
  shows "\<exists>s' t' segs'. run ops s = Some s' \<and> index_inv t' segs' s' \<and> cfg s' = cfg s"
  using assms
proof (induction ops arbitrary: s t segs tc)
  case Nil
  then show ?case by auto
next
  case (Cons op1 ops)
  have one: "well_timed tc [op1]"
    using Cons.prems(2) by (cases op1) simp_all
  from index_inv_step [OF Cons.prems(1) one Cons.prems(3,4)]
  obtain s1 t1 segs1 where s1: "step op1 s = Some s1" "index_inv t1 segs1 s1" "cfg s1 = cfg s"
    and t1: "case op1 of Persist t_delta t_file t_started \<Rightarrow> t1 \<le> t_file
                  \<and> length (num_to_string t1) = length (num_to_string t_file)
               | _ \<Rightarrow> t1 = t"
    by blast
  have "\<exists>tc1. well_timed tc1 ops \<and> t1 \<le> tc1 \<and> length (num_to_string t1) = length (num_to_string tc1)"
    using Cons.prems(2,3,4) t1 by (cases op1) auto
  then obtain tc1 where "well_timed tc1 ops" "t1 \<le> tc1"
    "length (num_to_string t1) = length (num_to_string tc1)" by blast
  from Cons.IH [OF s1(2) this] obtain s' t' segs' where
    "run ops s1 = Some s'" "index_inv t' segs' s'" "cfg s' = cfg s1" by blast
  with s1 show ?case by auto
qed

lemma index_inv_empty_store:
  assumes "check_config c"
  shows "index_inv t_file [] (empty_store c t_started t_file)"
  using assms by (simp add: index_inv_def empty_store_def check_config_def segment_file_def)

section \<open>Sequence numbers and sizes along a run\<close>

text \<open>A call that waits for the lock while it is set does not return.\<close>

lemma wait_persist_lock_locked:
  assumes "persist_lock s"
  shows "wait_persist_lock s = None"
proof (rule ccontr)
  assume "wait_persist_lock s \<noteq> None"
  then obtain u where "wait_persist_lock s = Some u" by auto
  then have "\<not> persist_lock s"
    by (rule wait_persist_lock.raw_induct [rotated]) (auto split: if_splits)
  with assms show False by simp
qed

lemma wait_persist_lock_Some: "wait_persist_lock s = Some u \<longleftrightarrow> \<not> persist_lock s"
  using wait_persist_lock_locked [of s] wait_persist_lock_unlocked [of s] by auto

lemma step_index_prefix:
  assumes "step op1 s = Some s'"
  shows "prefix (index s) (index s')"
proof (cases op1)
  case (Put now key val)
  have "prefix (index s) (index (set_valid now k val s))" for k
    using set_valid_existing [of s k now val] set_valid_new [of s k now val]
    by (cases "get_property (index s) k = Missing") (auto simp: same_frame_def)
  with assms show ?thesis
    by (auto simp: Put set_kv_def split: jsval.splits if_splits option.splits)
next
  case (Get key)
  then have "\<not> persist_lock s \<or> s' = s"
    using assms by (auto simp: get_def wait_persist_lock_Some split: if_splits option.splits)
  with assms Get get_frame [of s key] show ?thesis
    by (auto simp: same_frame_def)
next
  case (GetN index_range time_range)
  then have "\<not> persist_lock s"
    using assms by (auto simp: getn_def wait_persist_lock_Some split: option.splits)
  with assms GetN getn_frame [of s index_range time_range] show ?thesis
    by (auto simp: same_frame_def)
next
  case (Persist t_delta t_file t_started)
  with assms show ?thesis by (auto simp: persist_cases)
qed

lemma index_inv_sizes:
  assumes "index_inv t segs s"
  shows "index_size s = rindex_size s"
    and "cache_size s = index_size s - sum_list (map snd (meta_archive s))"
proof -
  from assms show "index_size s = rindex_size s"
    by (simp add: index_inv_def)
  have meta: "meta_archive s = map (\<lambda>seg. (archive_name (cfg s) (fst seg), int (snd seg))) segs"
    and files: "map (\<lambda>kv. entry_f (snd kv)) (index s)
         = concat (map (\<lambda>seg. replicate (snd seg) (segment_file (fst seg))) segs)
           @ replicate (length (cache s)) (segment_file t)"
    using assms by (simp_all add: index_inv_def)
  have "length (index s) = length (map (\<lambda>kv. entry_f (snd kv)) (index s))" by simp
  also have "\<dots> = sum_list (map snd segs) + length (cache s)"
    by (simp only: files) (simp add: length_concat comp_def)
  finally have "int (length (index s)) = int (sum_list (map snd segs)) + int (length (cache s))"
    by simp
  moreover have "sum_list (map snd (meta_archive s)) = int (sum_list (map snd segs))"
    by (simp add: meta comp_def) (induction segs; simp)
  ultimately show "cache_size s = index_size s - sum_list (map snd (meta_archive s))"
    by (simp add: cache_size_def)
qed

text \<open>
  What every run keeps. Start from the store the constructor builds in an empty
  directory, with a configuration that passes \<open>_check_config\<close>, and apply any sequence
  of \<open>set\<close>, \<open>get\<close>, \<open>getn\<close> and \<open>_persist\<close> (checkpoints, rotating or not) whose
  file-name clock readings are \<open>well_timed\<close>. The run returns, and in its final store:
  the keys of the index are distinct; the \<open>j\<close>-th of them has sequence number \<open>j\<close>,
  so the sequence numbers are exactly \<open>0, \<dots>, index_size - 1\<close>; the reverse index maps
  the name of \<open>j\<close> to the \<open>j\<close>-th key, and has the size of the index; the cache
  length is the index size minus the sum of the catalog sizes; and one more operation
  of any kind leaves every entry of the index as it is (the index only grows at its
  end). Whether the size of the index is the number of keys that were put is another
  matter: see \<open>put_inherited_name_gets_no_seq\<close>.
\<close>

lemma run_keeps_sizes:
  assumes "check_config c" and "well_timed t_file ops"
  shows "\<exists>s. run ops (empty_store c t_started t_file) = Some s
           \<and> distinct (map fst (index s))
           \<and> map (\<lambda>kv. entry_i (snd kv)) (index s) = map int [0..<length (index s)]
           \<and> (\<lambda>kv. entry_i (snd kv)) ` set (index s) = {0..<index_size s}
           \<and> rindex s = map (\<lambda>j. (num_to_string (int j), fst (index s ! j))) [0..<length (index s)]
           \<and> index_size s = rindex_size s
           \<and> cache_size s = index_size s - sum_list (map snd (meta_archive s))
           \<and> (\<forall>op1 s'. step op1 s = Some s' \<longrightarrow> prefix (index s) (index s'))"
proof -
  let ?s0 = "empty_store c t_started t_file"
  have inv0: "index_inv t_file [] ?s0"
    using assms(1) by (rule index_inv_empty_store)
  from index_inv_run [OF inv0 assms(2)] obtain s t segs where
    run: "run ops ?s0 = Some s" and inv: "index_inv t segs s"
    by auto
  have dist: "distinct (map fst (index s))"
    using inv by (simp add: index_inv_def)
  have seq: "map (\<lambda>kv. entry_i (snd kv)) (index s) = map int [0..<length (index s)]"
    using inv by (simp add: index_inv_def)
  have "(\<lambda>kv. entry_i (snd kv)) ` set (index s) = set (map (\<lambda>kv. entry_i (snd kv)) (index s))"
    by simp
  also have "\<dots> = {0..<int (length (index s))}"
    by (simp only: seq) (simp add: image_int_atLeastLessThan)
  finally have seqs: "(\<lambda>kv. entry_i (snd kv)) ` set (index s) = {0..<index_size s}"
    by simp
  have rx: "rindex s = map (\<lambda>j. (num_to_string (int j), fst (index s ! j))) [0..<length (index s)]"
    using inv by (simp add: index_inv_def)
  from run dist seq seqs rx index_inv_sizes [OF inv] step_index_prefix
  show ?thesis by blast
qed

text \<open>
  Claim C2 at a key that names a property of \<open>Object.prototype\<close>. On the empty store
  \<open>set('constructor', 'x')\<close> passes both checks and returns \<open>true\<close>, yet the store
  is what it was: \<open>this.index[key]\<close> finds the inherited property and \<open>set\<close> takes
  its update branch. After \<open>set('alpha', 'v1')\<close> two distinct keys have been put
  with success, and the only sequence number assigned is \<open>0\<close>, to \<open>alpha\<close>: the set of
  sequence numbers is \<open>{0}\<close>, not \<open>{0, 1}\<close>.
\<close>

theorem put_inherited_name_gets_no_seq:
  "set_kv 1700000000002 (JStr ''constructor'') (JStr ''x'') store0 = Some (True, store0)
   \<and> index_size store0 = 0
   \<and> set_kv 1700000000003 (JStr ''alpha'') (JStr ''v1'') store0
       = Some (True, set_valid 1700000000003 ''alpha'' (JStr ''v1'') store0)
   \<and> run [Put 1700000000002 (JStr ''constructor'') (JStr ''x''),
           Put 1700000000003 (JStr ''alpha'') (JStr ''v1'')] store0
       = Some (set_valid 1700000000003 ''alpha'' (JStr ''v1'') store0)
   \<and> map (\<lambda>kv. (fst kv, entry_i (snd kv))) (index (set_valid 1700000000003 ''alpha'' (JStr ''v1'') store0))
       = [(''alpha'', 0)]
   \<and> index_size (set_valid 1700000000003 ''alpha'' (JStr ''v1'') store0) = 1"
proof -
  have c: "set_kv 1700000000002 (JStr ''constructor'') (JStr ''x'') store0 = Some (True, store0)"
    by (simp add: set_kv_def check_key_def check_value_def set_valid_def update_file_def
        get_property_def object_prototype_names_def get_memory_cache_index_def
        store0_def empty_store_def default_config_def json_quote_def json_escape_def
        num_to_string_def digits_of.simps digit_char_def)
  have a: "set_kv 1700000000003 (JStr ''alpha'') (JStr ''v1'') store0
             = Some (True, set_valid 1700000000003 ''alpha'' (JStr ''v1'') store0)"
    by (simp add: set_kv_def check_key_def check_value_def
        store0_def empty_store_def default_config_def json_quote_def json_escape_def)
  have ix: "index (set_valid 1700000000003 ''alpha'' (JStr ''v1'') store0)
              = [(''alpha'', \<lparr>entry_i = 0, entry_f = ''1700000000001.json'', entry_c = 1700000000003\<rparr>)]"
    by (simp add: set_valid_def get_property_def object_prototype_names_def
        store0_def empty_store_def num_to_string_def digits_of.simps digit_char_def)
  have "index_size store0 = 0"
    by (simp add: store0_def empty_store_def)
  with c a ix show ?thesis
    by (simp del: index_size_length) (simp add: ix)
qed

section \<open>Finding a sealed value\<close>






















section \<open>The files of the sealed segments\<close>









lemma set_valid_cfg [simp]: "cfg (set_valid now k val s) = cfg s"
  using set_valid_existing [of s k now val] set_valid_new [of s k now val]
  by (cases "get_property (index s) k = Missing") (auto simp: same_frame_def)



section \<open>The value stored under a sequence number\<close>


lemma not_unserializable:
  assumes "json_stringify v = Some txt"
  shows "json_element v = json_roundtrip v"
  using assms by (auto simp: json_element_def unserializable_def)



lemma persist_index [simp]: "index (persist t_delta t_file t_started s) = index s"
  by (simp add: persist_cases)

section \<open>Runs keep the files of the sealed segments\<close>




section \<open>Reading a key back\<close>










section \<open>A store with a sealed segment, as a run reaches it\<close>









section \<open>Putting a key that is in the index\<close>






end
